theory Spec2Isabelle
  imports Complex_Main "HOL-Library.Multiset"
begin

section \<open>Tensors\<close>

text \<open>
  The loss and metric arithmetic of \<^verbatim>\<open>modules/model.py\<close> (class \<^verbatim>\<open>Candela\<close>) works on
  PyTorch tensors. A tensor is modelled as its shape together with its elements in
  row-major order, which is the order \<^verbatim>\<open>view\<close> preserves. Element arithmetic is
  modelled twice. The first model is over the real numbers: rounding, overflow and the
  propagation of infinities of 32-bit floating point are not part of it, and the one real
  operation that has no value, division by zero, is kept visible (\<open>DivZero\<close>). The second
  model (section \<open>The float32 range\<close>) gives \<^verbatim>\<open>compute_loss\<close> and \<^verbatim>\<open>compute_ppl\<close> again over
  numbers that overflow to an infinity and carry NaN as 32-bit floats do; the statements
  about padding and about the bounds of the perplexity are made there, because they depend
  on it. Device placement (\<^verbatim>\<open>.cuda()\<close>) is not modelled.
\<close>

record 'a tensor =
  shape :: "nat list"
  elems :: "'a list"

definition wf_tensor :: "'a tensor \<Rightarrow> bool" where
  "wf_tensor t = (length (elems t) = prod_list (shape t))"

definition numel :: "'a tensor \<Rightarrow> nat" where
  "numel t = length (elems t)"

text \<open>The Python exceptions that the modelled operations raise, as values.\<close>

datatype error = RuntimeError | IndexError | ValueError | KeyError | AssertionError

text \<open>Sequencing of steps that may raise: the first exception ends the computation.\<close>

definition ebind :: "error + 'a \<Rightarrow> ('a \<Rightarrow> error + 'b) \<Rightarrow> error + 'b" where
  "ebind m f = (case m of Inl e \<Rightarrow> Inl e | Inr x \<Rightarrow> f x)"

text \<open>
  The result of a floating-point division: a number, or \<open>DivZero\<close> when the divisor is
  zero. Floating point raises nothing there and returns an infinity or NaN; that value,
  and whatever is computed from it, is not tracked by the model.
\<close>

datatype scalar = Fin real | DivZero

definition tdiv :: "real \<Rightarrow> real \<Rightarrow> scalar" where
  "tdiv x y = (if y = 0 then DivZero else Fin (x / y))"

subsection \<open>Reshaping\<close>

text \<open>
  \<^verbatim>\<open>t.view(-1, c)\<close>: the elements regrouped into rows of \<open>c\<close>; an error when \<open>c\<close> is not
  positive or does not divide the number of elements.
\<close>

definition view_rows :: "'a tensor \<Rightarrow> int \<Rightarrow> error + 'a tensor" where
  "view_rows t c =
     (if c \<le> 0 \<or> numel t mod nat c \<noteq> 0 then Inl RuntimeError
      else Inr \<lparr>shape = [numel t div nat c, nat c], elems = elems t\<rparr>)"

text \<open>\<^verbatim>\<open>t.view(*s)\<close> for a full shape \<open>s\<close>.\<close>

definition view_as :: "'a tensor \<Rightarrow> nat list \<Rightarrow> error + 'a tensor" where
  "view_as t s =
     (if prod_list s \<noteq> numel t then Inl RuntimeError
      else Inr \<lparr>shape = s, elems = elems t\<rparr>)"

text \<open>\<^verbatim>\<open>t.size(d)\<close>.\<close>

definition size_at :: "'a tensor \<Rightarrow> nat \<Rightarrow> error + nat" where
  "size_at t d = (if d < length (shape t) then Inr (shape t ! d) else Inl IndexError)"

text \<open>Row \<open>i\<close> of a flat list of rows of width \<open>c\<close>.\<close>

definition row_at :: "nat \<Rightarrow> 'a list \<Rightarrow> nat \<Rightarrow> 'a list" where
  "row_at c xs i = take c (drop (i * c) xs)"

definition rows_of :: "'a tensor \<Rightarrow> 'a list list" where
  "rows_of t = (case shape t of [r, c] \<Rightarrow> map (row_at c (elems t)) [0..<r] | _ \<Rightarrow> [])"

subsection \<open>Element-wise operations and broadcasting\<close>

definition tmap :: "('a \<Rightarrow> 'b) \<Rightarrow> 'a tensor \<Rightarrow> 'b tensor" where
  "tmap f t = \<lparr>shape = shape t, elems = map f (elems t)\<rparr>"

text \<open>
  Broadcasting of a binary operation: shapes are aligned at the last axis, the shorter
  one is padded with leading axes of size 1, and an axis of size 1 is repeated to the size
  of the other operand's axis. Any other disagreement of sizes is an error.
\<close>

definition pad_shape :: "nat \<Rightarrow> nat list \<Rightarrow> nat list" where
  "pad_shape r s = replicate (r - length s) 1 @ s"

fun broadcast_shape :: "nat list \<Rightarrow> nat list \<Rightarrow> nat list option" where
  "broadcast_shape [] [] = Some []"
| "broadcast_shape (d # ds) (e # es) =
     (case broadcast_shape ds es of
        None \<Rightarrow> None
      | Some s \<Rightarrow>
          if d = e then Some (d # s)
          else if d = 1 then Some (e # s)
          else if e = 1 then Some (d # s)
          else None)"
| "broadcast_shape _ _ = None"

text \<open>
  \<open>expand s s' xs\<close>: the elements \<open>xs\<close> of a tensor of shape \<open>s\<close>, repeated to
  shape \<open>s'\<close> (of the same rank).
\<close>

fun expand :: "nat list \<Rightarrow> nat list \<Rightarrow> 'a list \<Rightarrow> 'a list" where
  "expand (d # ds) (e # es) xs =
     concat (map (\<lambda>i. expand ds es (row_at (prod_list ds) xs (if d = 1 then 0 else i))) [0..<e])"
| "expand _ _ xs = xs"

definition tbinop :: "('a \<Rightarrow> 'b \<Rightarrow> 'c) \<Rightarrow> 'a tensor \<Rightarrow> 'b tensor \<Rightarrow> error + 'c tensor" where
  "tbinop f a b =
     (let r = max (length (shape a)) (length (shape b));
          sa = pad_shape r (shape a);
          sb = pad_shape r (shape b)
      in case broadcast_shape sa sb of
           None \<Rightarrow> Inl RuntimeError
         | Some s \<Rightarrow>
             Inr \<lparr>shape = s, elems = map2 f (expand sa s (elems a)) (expand sb s (elems b))\<rparr>)"

text \<open>\<^verbatim>\<open>t.sum()\<close>: the sum of all elements.\<close>

definition tsum :: "real tensor \<Rightarrow> real" where
  "tsum t = sum_list (elems t)"

text \<open>
  \<^verbatim>\<open>t.sum(dim=d)\<close> and \<^verbatim>\<open>torch.sum(t, d)\<close>: the sum along axis \<open>d\<close>, which is then dropped
  from the shape. A negative \<open>d\<close> counts from the last axis.
\<close>

definition sum_dim :: "real tensor \<Rightarrow> int \<Rightarrow> error + real tensor" where
  "sum_dim t d =
     (let r = int (length (shape t));
          k = (if d < 0 then d + r else d)
      in if k < 0 \<or> r \<le> k then Inl IndexError
         else
           let pre = take (nat k) (shape t);
               n = shape t ! nat k;
               post = drop (Suc (nat k)) (shape t);
               q = prod_list post
           in Inr \<lparr>shape = pre @ post,
                   elems = concat (map (\<lambda>i. map (\<lambda>l. \<Sum>j\<leftarrow>[0..<n]. elems t ! ((i * n + j) * q + l))
                                               [0..<q])
                                   [0..<prod_list pre])\<rparr>)"

text \<open>\<^verbatim>\<open>torch.ones(s)\<close>.\<close>

definition ones :: "nat list \<Rightarrow> real tensor" where
  "ones s = \<lparr>shape = s, elems = replicate (prod_list s) 1\<rparr>"

text \<open>
  Operations on the results of divisions. A \<open>DivZero\<close> operand makes the result
  \<open>DivZero\<close>: nothing is said about what floating point computes from it.
\<close>

fun smin :: "scalar \<Rightarrow> real \<Rightarrow> scalar" where
  "smin (Fin x) y = Fin (min x y)"
| "smin DivZero y = DivZero"

fun sexp :: "scalar \<Rightarrow> scalar" where
  "sexp (Fin x) = Fin (exp x)"
| "sexp DivZero = DivZero"

fun the_fin :: "scalar \<Rightarrow> real" where
  "the_fin (Fin x) = x"
| "the_fin DivZero = 0"

text \<open>\<^verbatim>\<open>torch.mean(t)\<close>: the sum of all elements divided by their number.\<close>

definition tmean :: "scalar tensor \<Rightarrow> scalar" where
  "tmean t =
     (if DivZero \<in> set (elems t) then DivZero
      else tdiv (sum_list (map the_fin (elems t))) (real (numel t)))"

subsection \<open>Log-softmax and gather\<close>

text \<open>\<^verbatim>\<open>F.log_softmax(t, dim=1)\<close> on a tensor of rows.\<close>

definition log_softmax_row :: "real list \<Rightarrow> real list" where
  "log_softmax_row xs = map (\<lambda>x. x - ln (sum_list (map exp xs))) xs"

definition log_softmax :: "real tensor \<Rightarrow> real tensor" where
  "log_softmax t = \<lparr>shape = shape t, elems = concat (map log_softmax_row (rows_of t))\<rparr>"

text \<open>
  \<^verbatim>\<open>torch.gather(inp, dim=1, index=idx)\<close> for \<open>inp\<close> of shape \<open>[r, c]\<close> and \<open>idx\<close> of shape
  \<open>[n, 1]\<close>: entry \<open>i\<close> of the result is \<open>inp[i][idx[i][0]]\<close>. The index may not have more
  rows than the input, and every index must lie in \<open>[0, c)\<close>; otherwise torch raises a
  \<^verbatim>\<open>RuntimeError\<close>.
\<close>

definition gather :: "'a tensor \<Rightarrow> int tensor \<Rightarrow> error + 'a tensor" where
  "gather inp idx =
     (case (shape inp, shape idx) of
        ([r, c], [n, k]) \<Rightarrow>
          if k \<noteq> 1 \<or> r < n then Inl RuntimeError
          else if \<exists>j \<in> set (elems idx). j < 0 \<or> int c \<le> j then Inl RuntimeError
          else Inr \<lparr>shape = [n, 1],
                    elems = map (\<lambda>i. row_at c (elems inp) i ! nat (elems idx ! i)) [0..<n]\<rparr>
      | _ \<Rightarrow> Inl RuntimeError)"

section \<open>Sequence mask\<close>

text \<open>
  Modelled from the spec: \<^verbatim>\<open>utils.get_sequence_mask_from_length\<close> is not part of the given
  source. Section 4.3 of the specification describes its result: a boolean mask with one
  row per example and \<open>max_len\<close> columns, true where the position index is less than that
  example's true length and false elsewhere.
\<close>

definition get_sequence_mask_from_length :: "int tensor \<Rightarrow> nat \<Rightarrow> bool tensor" where
  "get_sequence_mask_from_length seq_len max_len =
     \<lparr>shape = [numel seq_len, max_len],
      elems = concat (map (\<lambda>l. map (\<lambda>j. int j < l) [0..<max_len]) (elems seq_len))\<rparr>"

text \<open>\<^verbatim>\<open>.float()\<close> on a boolean and on an integer tensor.\<close>

definition float_of_bool :: "bool tensor \<Rightarrow> real tensor" where
  "float_of_bool t = tmap of_bool t"

definition float_of_int :: "int tensor \<Rightarrow> real tensor" where
  "float_of_int t = tmap real_of_int t"

section \<open>Masked sequence loss\<close>

text \<open>\<^verbatim>\<open>Candela.compute_loss(readouts, targets, seq_len, type_cnt)\<close>.\<close>

definition compute_loss ::
  "real tensor \<Rightarrow> int tensor \<Rightarrow> int tensor \<Rightarrow> int \<Rightarrow> error + scalar" where
  "compute_loss readouts targets seq_len type_cnt =
     ebind (view_rows readouts type_cnt) (\<lambda>readouts_flat.
     let log_probs_flat = log_softmax readouts_flat in
     ebind (view_rows targets 1) (\<lambda>dec_targets_flat.
     ebind (gather log_probs_flat dec_targets_flat) (\<lambda>gathered.
     let losses_flat = tmap uminus gathered in
     ebind (view_as losses_flat (shape targets)) (\<lambda>losses.
     ebind (size_at targets 1) (\<lambda>max_len.
     let mask = get_sequence_mask_from_length seq_len max_len in
     ebind (tbinop (*) losses (float_of_bool mask)) (\<lambda>losses'.
     Inr (tdiv (tsum losses') (tsum (float_of_int seq_len)))))))))"

section \<open>Perplexity\<close>

text \<open>
  \<^verbatim>\<open>Candela.compute_ppl(readouts, targets, seq_len)\<close>, in two parts: \<open>ppl_lst\<close> is the
  function body up to the value of its local variable \<^verbatim>\<open>ppl_lst\<close>, the tensor of
  per-example perplexities, and \<open>compute_ppl\<close> returns its mean. The attribute
  \<^verbatim>\<open>self.word_vocab_size\<close> is the first argument.
\<close>

definition ppl_lst ::
  "int \<Rightarrow> real tensor \<Rightarrow> int tensor \<Rightarrow> int tensor \<Rightarrow> error + scalar tensor" where
  "ppl_lst word_vocab_size readouts targets seq_len =
     (let norm_term = tsum (float_of_int seq_len) in
     ebind (view_rows readouts word_vocab_size) (\<lambda>readouts_flat.
     let log_probs_flat = log_softmax readouts_flat in
     ebind (view_rows targets 1) (\<lambda>target_flat.
     ebind (gather log_probs_flat target_flat) (\<lambda>gathered.
     let losses_flat = tmap uminus gathered in
     ebind (view_as losses_flat (shape targets)) (\<lambda>losses.
     ebind (size_at targets 1) (\<lambda>max_len.
     let mask = get_sequence_mask_from_length seq_len max_len in
     ebind (tbinop (*) losses (float_of_bool mask)) (\<lambda>losses'.
     ebind (sum_dim losses' 1) (\<lambda>losses_sum.
     ebind (tbinop tdiv losses_sum (float_of_int seq_len)) (\<lambda>probs_normalized.
     ebind (tbinop smin probs_normalized (tmap ((*) 100) (ones (shape probs_normalized))))
       (\<lambda>probs_normalized'.
     Inr (tmap sexp probs_normalized')))))))))))"

definition compute_ppl ::
  "int \<Rightarrow> real tensor \<Rightarrow> int tensor \<Rightarrow> int tensor \<Rightarrow> error + scalar" where
  "compute_ppl word_vocab_size readouts targets seq_len =
     ebind (ppl_lst word_vocab_size readouts targets seq_len) (\<lambda>ppl_lst. Inr (tmean ppl_lst))"

section \<open>The float32 range\<close>

text \<open>
  The tensors of \<^verbatim>\<open>compute_loss\<close> and \<^verbatim>\<open>compute_ppl\<close> hold 32-bit floats (the source asks for
  \<^verbatim>\<open>.float()\<close> and \<^verbatim>\<open>dtype=torch.float\<close>). A float is modelled as a real number inside the
  float32 range, \<open>PosInf\<close>, \<open>NegInf\<close> or \<open>NaN\<close>. An operation on numbers is exact when its
  result lies inside the range and gives the infinity of its sign beyond the largest finite
  float32 (\<open>rnd\<close>); the operations on infinities and NaN follow IEEE 754. The rounding of
  the mantissa, underflow to zero and the sign of zero are not modelled.
\<close>

datatype f32 = Num real | PosInf | NegInf | NaN

definition max_f32 :: real where
  "max_f32 = 340282346638528859811704183484516925440"

definition rnd :: "real \<Rightarrow> f32" where
  "rnd r = (if max_f32 < r then PosInf else if r < - max_f32 then NegInf else Num r)"

text \<open>The arithmetic on floats: negation, \<open>+\<close>, \<open>-\<close>, \<open>*\<close> and \<open>/\<close>.\<close>

fun fneg :: "f32 \<Rightarrow> f32" where
  "fneg (Num x) = Num (- x)"
| "fneg PosInf = NegInf"
| "fneg NegInf = PosInf"
| "fneg NaN = NaN"

fun fadd :: "f32 \<Rightarrow> f32 \<Rightarrow> f32" where
  "fadd NaN b = NaN"
| "fadd a NaN = NaN"
| "fadd (Num x) (Num y) = rnd (x + y)"
| "fadd PosInf NegInf = NaN"
| "fadd NegInf PosInf = NaN"
| "fadd PosInf b = PosInf"
| "fadd a PosInf = PosInf"
| "fadd NegInf b = NegInf"
| "fadd a NegInf = NegInf"

definition fsub :: "f32 \<Rightarrow> f32 \<Rightarrow> f32" where
  "fsub a b = fadd a (fneg b)"

fun fmul :: "f32 \<Rightarrow> f32 \<Rightarrow> f32" where
  "fmul NaN b = NaN"
| "fmul a NaN = NaN"
| "fmul (Num x) (Num y) = rnd (x * y)"
| "fmul PosInf (Num y) = (if y = 0 then NaN else if 0 < y then PosInf else NegInf)"
| "fmul NegInf (Num y) = (if y = 0 then NaN else if 0 < y then NegInf else PosInf)"
| "fmul (Num x) PosInf = (if x = 0 then NaN else if 0 < x then PosInf else NegInf)"
| "fmul (Num x) NegInf = (if x = 0 then NaN else if 0 < x then NegInf else PosInf)"
| "fmul PosInf PosInf = PosInf"
| "fmul NegInf NegInf = PosInf"
| "fmul PosInf NegInf = NegInf"
| "fmul NegInf PosInf = NegInf"

fun fdiv :: "f32 \<Rightarrow> f32 \<Rightarrow> f32" where
  "fdiv NaN b = NaN"
| "fdiv a NaN = NaN"
| "fdiv (Num x) (Num y) =
     (if y = 0 then (if x = 0 then NaN else if 0 < x then PosInf else NegInf)
      else rnd (x / y))"
| "fdiv (Num x) b = Num 0"
| "fdiv PosInf (Num y) = (if 0 \<le> y then PosInf else NegInf)"
| "fdiv NegInf (Num y) = (if 0 \<le> y then NegInf else PosInf)"
| "fdiv a b = NaN"

text \<open>
  \<^verbatim>\<open>torch.exp\<close> and the logarithm; \<^verbatim>\<open>torch.max\<close> and \<^verbatim>\<open>torch.min\<close> of two floats, which
  return NaN when either argument is NaN.
\<close>

fun fexp :: "f32 \<Rightarrow> f32" where
  "fexp (Num x) = rnd (exp x)"
| "fexp PosInf = PosInf"
| "fexp NegInf = Num 0"
| "fexp NaN = NaN"

fun fln :: "f32 \<Rightarrow> f32" where
  "fln (Num x) = (if x < 0 then NaN else if x = 0 then NegInf else rnd (ln x))"
| "fln PosInf = PosInf"
| "fln NegInf = NaN"
| "fln NaN = NaN"

fun fmax :: "f32 \<Rightarrow> f32 \<Rightarrow> f32" where
  "fmax NaN b = NaN"
| "fmax a NaN = NaN"
| "fmax (Num x) (Num y) = Num (max x y)"
| "fmax PosInf b = PosInf"
| "fmax a PosInf = PosInf"
| "fmax NegInf b = b"
| "fmax a NegInf = a"


text \<open>A number, as opposed to an infinity or NaN.\<close>

fun is_number :: "f32 \<Rightarrow> bool" where
  "is_number (Num x) = True"
| "is_number _ = False"

text \<open>\<^verbatim>\<open>t.sum()\<close> on floats, and the maximum of a row.\<close>

primrec fsum :: "f32 list \<Rightarrow> f32" where
  "fsum [] = Num 0"
| "fsum (x # xs) = fadd x (fsum xs)"

definition fmax_list :: "f32 list \<Rightarrow> f32" where
  "fmax_list xs = foldr fmax xs NegInf"

text \<open>
  \<^verbatim>\<open>F.log_softmax(t, dim=1)\<close> on floats, computed as torch computes it: the maximum of the
  row is subtracted before the exponentials are summed.
\<close>

definition log_softmax_row_f32 :: "f32 list \<Rightarrow> f32 list" where
  "log_softmax_row_f32 xs =
     (let m = fmax_list xs;
          s = fsum (map (\<lambda>x. fexp (fsub x m)) xs)
      in map (\<lambda>x. fsub (fsub x m) (fln s)) xs)"

definition log_softmax_f32 :: "f32 tensor \<Rightarrow> f32 tensor" where
  "log_softmax_f32 t = \<lparr>shape = shape t, elems = concat (map log_softmax_row_f32 (rows_of t))\<rparr>"


text \<open>
  \<^verbatim>\<open>.float()\<close> on a boolean and on an integer tensor (every 64-bit integer lies inside
  the float32 range), and \<^verbatim>\<open>torch.ones(s, dtype=torch.float)\<close>.
\<close>

definition f32_of_bool :: "bool tensor \<Rightarrow> f32 tensor" where
  "f32_of_bool t = tmap (\<lambda>b. Num (of_bool b)) t"

definition f32_of_int :: "int tensor \<Rightarrow> f32 tensor" where
  "f32_of_int t = tmap (\<lambda>i. Num (real_of_int i)) t"


text \<open>
  \<^verbatim>\<open>Candela.compute_loss\<close> and \<^verbatim>\<open>Candela.compute_ppl\<close> (up to \<^verbatim>\<open>ppl_lst\<close>) on floats: the
  same statements as \<open>compute_loss\<close> and \<open>ppl_lst\<close> above, with the float operations.
\<close>

definition compute_loss_f32 ::
  "f32 tensor \<Rightarrow> int tensor \<Rightarrow> int tensor \<Rightarrow> int \<Rightarrow> error + f32" where
  "compute_loss_f32 readouts targets seq_len type_cnt =
     ebind (view_rows readouts type_cnt) (\<lambda>readouts_flat.
     let log_probs_flat = log_softmax_f32 readouts_flat in
     ebind (view_rows targets 1) (\<lambda>dec_targets_flat.
     ebind (gather log_probs_flat dec_targets_flat) (\<lambda>gathered.
     let losses_flat = tmap fneg gathered in
     ebind (view_as losses_flat (shape targets)) (\<lambda>losses.
     ebind (size_at targets 1) (\<lambda>max_len.
     let mask = get_sequence_mask_from_length seq_len max_len in
     ebind (tbinop fmul losses (f32_of_bool mask)) (\<lambda>losses'.
     Inr (fdiv (fsum (elems losses')) (fsum (elems (f32_of_int seq_len))))))))))"


section \<open>Phrase-attention supervision loss\<close>

text \<open>
  \<^verbatim>\<open>F.binary_cross_entropy(input, target, reduction='none')\<close>: a \<^verbatim>\<open>ValueError\<close> when
  the two sizes differ, a \<^verbatim>\<open>RuntimeError\<close> when an input lies outside \<open>[0, 1]\<close>, and
  otherwise, element by element, \<open>- (y * log x + (1 - y) * log (1 - x))\<close> with each
  logarithm clamped below at \<open>-100\<close> (the logarithm of zero included).
\<close>

definition clamped_log :: "real \<Rightarrow> real" where
  "clamped_log x = (if x \<le> 0 then - 100 else max (ln x) (- 100))"

definition bce :: "real \<Rightarrow> real \<Rightarrow> real" where
  "bce x y = - (y * clamped_log x + (1 - y) * clamped_log (1 - x))"

definition binary_cross_entropy :: "real tensor \<Rightarrow> real tensor \<Rightarrow> error + real tensor" where
  "binary_cross_entropy inp target =
     (if shape target \<noteq> shape inp then Inl ValueError
      else if \<exists>x \<in> set (elems inp). x < 0 \<or> 1 < x then Inl RuntimeError
      else Inr \<lparr>shape = shape inp, elems = map2 bce (elems inp) (elems target)\<rparr>)"

text \<open>\<^verbatim>\<open>mask.sum()\<close> on an integer tensor.\<close>

definition isum :: "int tensor \<Rightarrow> int" where
  "isum t = sum_list (elems t)"

text \<open>
  \<^verbatim>\<open>Candela.compute_ph_attn_loss(ph_sel_target, align_vectors, mask)\<close>; the argument
  \<^verbatim>\<open>mask\<close> is written \<open>mask'\<close>.
\<close>

definition compute_ph_attn_loss ::
  "int tensor \<Rightarrow> real tensor \<Rightarrow> int tensor \<Rightarrow> error + scalar" where
  "compute_ph_attn_loss ph_sel_target align_vectors mask' =
     ebind (binary_cross_entropy align_vectors (float_of_int ph_sel_target)) (\<lambda>loss.
     ebind (tbinop (*) loss (float_of_int mask')) (\<lambda>masked_loss.
     Inr (tdiv (tsum masked_loss) (real_of_int (isum mask')))))"

section \<open>Phrase-bank embedding\<close>

text \<open>
  An embedding lookup (\<^verbatim>\<open>nn.Embedding\<close> applied to a tensor of ids): every id is
  replaced by its row of the table, which adds one axis of the table's width. An id
  outside the table raises.
\<close>

definition embedding :: "real tensor \<Rightarrow> int tensor \<Rightarrow> error + real tensor" where
  "embedding table ids =
     (case shape table of
        [v, d] \<Rightarrow>
          if \<exists>i \<in> set (elems ids). i < 0 \<or> int v \<le> i then Inl IndexError
          else Inr \<lparr>shape = shape ids @ [d],
                    elems = concat (map (\<lambda>i. row_at d (elems table) (nat i)) (elems ids))\<rparr>
      | _ \<Rightarrow> Inl RuntimeError)"

text \<open>
  The phrase-bank lines of \<^verbatim>\<open>Candela.forward\<close>:
  \<^verbatim>\<open>ph_bank_embedded = self.sp_dec.embedding(tensor_dict["ph_bank_tensor"])\<close> and
  \<^verbatim>\<open>ph_bank_embedded = torch.sum(ph_bank_embedded, -2)\<close>. The first argument is the weight
  of the embedding table.
\<close>

definition ph_bank_embedded :: "real tensor \<Rightarrow> int tensor \<Rightarrow> error + real tensor" where
  "ph_bank_embedded table ph_bank_tensor =
     ebind (embedding table ph_bank_tensor) (\<lambda>ph_bank_embedded.
     sum_dim ph_bank_embedded (- 2))"

section \<open>Checkpoint reconstruction\<close>

text \<open>
  A checkpoint is a dictionary of three sections, each a dictionary from parameter names
  to tensors. \<^verbatim>\<open>torch.load(path)\<close> reads it from a file; the model starts from the
  dictionary that was read.
\<close>

type_synonym addr = nat
type_synonym state_dict = "(string \<times> real tensor) list"
type_synonym checkpoint = "(string \<times> state_dict) list"

text \<open>A dictionary lookup \<^verbatim>\<open>d[k]\<close>, which raises \<^verbatim>\<open>KeyError\<close> for a missing key.\<close>

definition dict_get :: "(string \<times> 'v) list \<Rightarrow> string \<Rightarrow> error + 'v" where
  "dict_get d k = (case map_of d k of None \<Rightarrow> Inl KeyError | Some v \<Rightarrow> Inr v)"

text \<open>
  An embedding table object (\<^verbatim>\<open>nn.Embedding\<close>). \<^verbatim>\<open>nn.Embedding.from_pretrained\<close> asserts
  that the weight has two axes and reads the number of rows and the width off its shape.
\<close>

record embedding_table =
  weight :: "real tensor"
  num_embeddings :: nat
  embedding_dim :: nat

definition from_pretrained :: "real tensor \<Rightarrow> error + embedding_table" where
  "from_pretrained embeddings =
     (if length (shape embeddings) \<noteq> 2 then Inl AssertionError
      else Inr \<lparr>weight = embeddings,
                num_embeddings = shape embeddings ! 0,
                embedding_dim = shape embeddings ! 1\<rparr>)"

text \<open>
  Objects that are shared by reference live in a heap; a new object gets the next free
  address.
\<close>

record heap =
  tables :: "addr \<Rightarrow> embedding_table option"
  next_addr :: addr

definition new_table :: "embedding_table \<Rightarrow> heap \<Rightarrow> addr \<times> heap" where
  "new_table t h = (next_addr h, \<lparr>tables = (tables h)(next_addr h \<mapsto> t), next_addr = Suc (next_addr h)\<rparr>)"

text \<open>
  Modelled from the spec: the classes \<^verbatim>\<open>encoder.EncoderRNN\<close>, \<^verbatim>\<open>decoder.SentencePlanner\<close>
  and \<^verbatim>\<open>decoder.WordDecoder\<close> are not part of the given source. Section 4.1 of the
  specification says that the three sub-components share the embedding table object they
  are given (not a copy) and that each owns its own parameters. A sub-component is
  therefore a reference to its table, the name under which it lists the table's weight in
  its state dictionary (if it does), and its own named parameters. What a constructor
  chooses (that name, and the names and initial values of the own parameters, from the
  sizes it is given) is its blueprint, and the three constructors are parameters of the
  model (\<open>architecture\<close>), with their arguments in the order of the calls in
  \<^verbatim>\<open>Candela.__init__\<close>, the table apart.
\<close>

type_synonym blueprint = "string option \<times> state_dict"

record component =
  table_ref :: addr
  table_key :: "string option"
  params :: state_dict

definition new_component :: "blueprint \<Rightarrow> addr \<Rightarrow> component" where
  "new_component bp word_emb = \<lparr>table_ref = word_emb, table_key = fst bp, params = snd bp\<rparr>"

record architecture =
  EncoderRNN :: "nat \<Rightarrow> nat \<Rightarrow> blueprint"
  SentencePlanner :: "nat \<Rightarrow> nat \<Rightarrow> blueprint"
  WordDecoder :: "nat \<Rightarrow> nat \<Rightarrow> nat \<Rightarrow> blueprint"

text \<open>
  \<^verbatim>\<open>Candela.__init__(word_emb, word_emb_dim, word_vocab_size)\<close>; the last argument is
  written \<open>word_vocab_size'\<close>.
\<close>

record candela =
  word_vocab_size :: nat
  global_steps :: nat
  enc :: component
  sp_dec :: component
  wd_dec :: component

definition candela_init :: "architecture \<Rightarrow> addr \<Rightarrow> nat \<Rightarrow> nat \<Rightarrow> candela" where
  "candela_init arch word_emb word_emb_dim word_vocab_size' =
     (let hidden_size = 512 in
      \<lparr>word_vocab_size = word_vocab_size',
       global_steps = 0,
       enc = new_component (EncoderRNN arch word_emb_dim hidden_size) word_emb,
       sp_dec = new_component (SentencePlanner arch hidden_size word_emb_dim) word_emb,
       wd_dec = new_component (WordDecoder arch hidden_size word_emb_dim word_vocab_size') word_emb\<rparr>)"

text \<open>
  \<^verbatim>\<open>module.load_state_dict(sd)\<close> in its default strict mode: a \<^verbatim>\<open>RuntimeError\<close> when the
  keys of \<open>sd\<close> are not exactly the keys of the module's state dictionary or when a
  tensor of \<open>sd\<close> has another shape than the parameter of its name; otherwise every
  parameter takes the value stored under its name, the weight of the shared table
  included when the module lists it.
\<close>

definition state_dict_of :: "heap \<Rightarrow> component \<Rightarrow> state_dict" where
  "state_dict_of h c =
     params c @
     (case table_key c of
        None \<Rightarrow> []
      | Some k \<Rightarrow> (case tables h (table_ref c) of None \<Rightarrow> [] | Some t \<Rightarrow> [(k, weight t)]))"

definition section_fits :: "state_dict \<Rightarrow> state_dict \<Rightarrow> bool" where
  "section_fits sd cur =
     (set (map fst sd) = set (map fst cur) \<and>
      \<not> (\<exists>(k, t) \<in> set cur. shape (the (map_of sd k)) \<noteq> shape t))"

definition load_state_dict :: "heap \<Rightarrow> component \<Rightarrow> state_dict \<Rightarrow> error + component \<times> heap" where
  "load_state_dict h c sd =
     (if \<not> section_fits sd (state_dict_of h c) then Inl RuntimeError
      else Inr (c\<lparr>params := map (\<lambda>(k, t). (k, the (map_of sd k))) (params c)\<rparr>,
                case table_key c of
                  None \<Rightarrow> h
                | Some k \<Rightarrow>
                    (case tables h (table_ref c) of
                       None \<Rightarrow> h
                     | Some t \<Rightarrow> h\<lparr>tables := (tables h)(table_ref c \<mapsto> t\<lparr>weight := the (map_of sd k)\<rparr>)\<rparr>)))"

text \<open>\<^verbatim>\<open>Candela.load_from_checkpoint\<close>, from the dictionary that \<^verbatim>\<open>torch.load\<close> returned.\<close>

definition load_from_checkpoint :: "architecture \<Rightarrow> heap \<Rightarrow> checkpoint \<Rightarrow> error + candela \<times> heap" where
  "load_from_checkpoint arch h ckpt =
     ebind (dict_get ckpt ''encoder'') (\<lambda>enc_sd.
     ebind (dict_get enc_sd ''embedding.weight'') (\<lambda>w.
     ebind (from_pretrained w) (\<lambda>word_emb_table.
     let (word_emb, h1) = new_table word_emb_table h;
         model = candela_init arch word_emb (embedding_dim word_emb_table) (num_embeddings word_emb_table)
     in
     ebind (load_state_dict h1 (enc model) enc_sd) (\<lambda>(enc', h2).
     ebind (dict_get ckpt ''sp_decoder'') (\<lambda>sp_sd.
     ebind (load_state_dict h2 (sp_dec model) sp_sd) (\<lambda>(sp_dec', h3).
     ebind (dict_get ckpt ''wd_decoder'') (\<lambda>wd_sd.
     ebind (load_state_dict h3 (wd_dec model) wd_sd) (\<lambda>(wd_dec', h4).
     Inr (model\<lparr>enc := enc', sp_dec := sp_dec', wd_dec := wd_dec'\<rparr>, h4)))))))))"


section \<open>The specified arithmetic\<close>

text \<open>
  The arithmetic that the specification describes, written by position: \<open>at2 t b j\<close> and
  \<open>at3 t b j k\<close> are the entries \<open>t[b, j]\<close> and \<open>t[b, j, k]\<close> of a tensor of rank 2 and 3.
\<close>

definition at2 :: "'a tensor \<Rightarrow> nat \<Rightarrow> nat \<Rightarrow> 'a" where
  "at2 t b j = elems t ! (b * (shape t ! 1) + j)"

definition at3 :: "'a tensor \<Rightarrow> nat \<Rightarrow> nat \<Rightarrow> nat \<Rightarrow> 'a" where
  "at3 t b j k = elems t ! ((b * (shape t ! 1) + j) * (shape t ! 2) + k)"

text \<open>The log-softmax over the class axis, at position \<open>j\<close> of example \<open>b\<close> and class \<open>k\<close>.\<close>

definition log_prob :: "real tensor \<Rightarrow> nat \<Rightarrow> nat \<Rightarrow> nat \<Rightarrow> real" where
  "log_prob readouts b j k =
     at3 readouts b j k - ln (\<Sum>c<shape readouts ! 2. exp (at3 readouts b j c))"

text \<open>The loss of a position: the negated log-probability of its target class.\<close>

definition position_loss :: "real tensor \<Rightarrow> int tensor \<Rightarrow> nat \<Rightarrow> nat \<Rightarrow> real" where
  "position_loss readouts targets b j = - log_prob readouts b j (nat (at2 targets b j))"

text \<open>A position is valid when its index is less than its example's true length.\<close>

definition valid_position :: "int tensor \<Rightarrow> nat \<Rightarrow> nat \<Rightarrow> bool" where
  "valid_position seq_len b j = (int j < elems seq_len ! b)"

text \<open>
  The masked negative log-likelihood of section 4.3: the losses of the valid positions,
  summed over the whole batch and divided by the sum of all lengths.
\<close>

definition masked_nll :: "real tensor \<Rightarrow> int tensor \<Rightarrow> int tensor \<Rightarrow> scalar" where
  "masked_nll readouts targets seq_len =
     tdiv (\<Sum>b<shape targets ! 0. \<Sum>j<shape targets ! 1.
             of_bool (valid_position seq_len b j) * position_loss readouts targets b j)
          (\<Sum>b<shape targets ! 0. real_of_int (elems seq_len ! b))"

text \<open>
  The perplexity of section 4.5: the masked losses of an example, summed over its own
  positions and divided by its own length; that value clamped above at 100 and
  exponentiated; and the mean of these perplexities over the examples of the batch.
\<close>

definition example_loss :: "real tensor \<Rightarrow> int tensor \<Rightarrow> int tensor \<Rightarrow> nat \<Rightarrow> real" where
  "example_loss readouts targets seq_len b =
     (\<Sum>j<shape targets ! 1. of_bool (valid_position seq_len b j) * position_loss readouts targets b j)
       / real_of_int (elems seq_len ! b)"

definition example_ppl :: "real tensor \<Rightarrow> int tensor \<Rightarrow> int tensor \<Rightarrow> nat \<Rightarrow> real" where
  "example_ppl readouts targets seq_len b = exp (min (example_loss readouts targets seq_len b) 100)"

definition mean_ppl :: "real tensor \<Rightarrow> int tensor \<Rightarrow> int tensor \<Rightarrow> scalar" where
  "mean_ppl readouts targets seq_len =
     tdiv (\<Sum>b<shape targets ! 0. example_ppl readouts targets seq_len b) (real (shape targets ! 0))"

text \<open>
  The phrase-attention loss of section 4.4: a pair is valid where the mask is 1; the
  element-wise binary cross-entropies of the valid pairs are summed and divided by the
  number of valid pairs.
\<close>

definition valid_pairs :: "int tensor \<Rightarrow> nat set" where
  "valid_pairs mask' = {i. i < numel mask' \<and> elems mask' ! i = 1}"

definition masked_bce :: "int tensor \<Rightarrow> real tensor \<Rightarrow> int tensor \<Rightarrow> scalar" where
  "masked_bce ph_sel_target align_vectors mask' =
     tdiv (\<Sum>i \<in> valid_pairs mask'. bce (elems align_vectors ! i) (real_of_int (elems ph_sel_target ! i)))
          (real (card (valid_pairs mask')))"

text \<open>
  A permutation \<open>\<pi>\<close> of the phrase slots of a tensor of shape \<open>[b, p, w]\<close>: slot \<open>j\<close> of
  the result is slot \<open>\<pi> j\<close> of the argument, in every example.
\<close>

definition permute_slots :: "(nat \<Rightarrow> nat) \<Rightarrow> 'a tensor \<Rightarrow> 'a tensor" where
  "permute_slots \<pi> t =
     (case shape t of
        [b, p, w] \<Rightarrow>
          \<lparr>shape = [b, p, w],
           elems = concat (map (\<lambda>i. row_at w (elems t) ((i div p) * p + \<pi> (i mod p))) [0..<b * p])\<rparr>
      | _ \<Rightarrow> t)"

text \<open>All ids lie inside a table of \<open>v\<close> rows.\<close>

definition ids_in_range :: "nat \<Rightarrow> int tensor \<Rightarrow> bool" where
  "ids_in_range v t = (\<forall>i \<in> set (elems t). 0 \<le> i \<and> i < int v)"

text \<open>
  What it means that component \<open>c\<close>, built from blueprint \<open>bp\<close> for a table of shape
  \<open>[v, d]\<close>, holds the section \<open>sd\<close>: the section has exactly the component's keys, every
  own parameter has the value the section stores under its name, that value has the
  shape the constructor gave the parameter, and the section's entry for the table, when
  the component has one, has the table's shape.
\<close>

definition holds_section :: "component \<Rightarrow> blueprint \<Rightarrow> nat \<Rightarrow> nat \<Rightarrow> state_dict \<Rightarrow> bool" where
  "holds_section c bp v d sd =
     (table_key c = fst bp \<and>
      set (map fst sd) = set (map fst (snd bp)) \<union> set_option (fst bp) \<and>
      params c = map (\<lambda>(k, t). (k, the (map_of sd k))) (snd bp) \<and>
      (\<forall>(k, t) \<in> set (snd bp). \<exists>t'. map_of sd k = Some t' \<and> shape t' = shape t) \<and>
      (\<forall>k \<in> set_option (fst bp). \<exists>t'. map_of sd k = Some t' \<and> shape t' = [v, d]))"

section \<open>Auxiliary definitions\<close>

text \<open>
  The statements that \<open>compute_loss\<close> and \<open>ppl_lst\<close> have in common, from the first
  \<^verbatim>\<open>view\<close> to the multiplication by the mask.
\<close>

definition masked_losses ::
  "real tensor \<Rightarrow> int tensor \<Rightarrow> int tensor \<Rightarrow> int \<Rightarrow> error + real tensor" where
  "masked_losses readouts targets seq_len type_cnt =
     ebind (view_rows readouts type_cnt) (\<lambda>readouts_flat.
     let log_probs_flat = log_softmax readouts_flat in
     ebind (view_rows targets 1) (\<lambda>dec_targets_flat.
     ebind (gather log_probs_flat dec_targets_flat) (\<lambda>gathered.
     let losses_flat = tmap uminus gathered in
     ebind (view_as losses_flat (shape targets)) (\<lambda>losses.
     ebind (size_at targets 1) (\<lambda>max_len.
     let mask = get_sequence_mask_from_length seq_len max_len in
     tbinop (*) losses (float_of_bool mask))))))"

text \<open>The negative log-likelihood of the target at flat position \<open>i\<close>.\<close>

definition nll_flat :: "real list \<Rightarrow> int list \<Rightarrow> nat \<Rightarrow> nat \<Rightarrow> real" where
  "nll_flat xs tg c i = - (xs ! (i * c + nat (tg ! i)) - ln (\<Sum>k<c. exp (xs ! (i * c + k))))"

text \<open>A small architecture and a checkpoint that fits it.\<close>

definition example_architecture :: architecture where
  "example_architecture =
     \<lparr>EncoderRNN = (\<lambda>d h. (Some ''embedding.weight'', [(''rnn.w'', \<lparr>shape = [1, d], elems = replicate d 0\<rparr>)])),
      SentencePlanner = (\<lambda>h d. (Some ''embedding.weight'', [])),
      WordDecoder = (\<lambda>h d v. (None, [(''out.w'', \<lparr>shape = [v], elems = replicate v 0\<rparr>)]))\<rparr>"

definition example_checkpoint :: checkpoint where
  "example_checkpoint =
     [(''encoder'', [(''embedding.weight'', \<lparr>shape = [3, 2], elems = [1, 2, 3, 4, 5, 6]\<rparr>),
                     (''rnn.w'', \<lparr>shape = [1, 2], elems = [7, 8]\<rparr>)]),
      (''sp_decoder'', [(''embedding.weight'', \<lparr>shape = [3, 2], elems = [1, 2, 3, 4, 5, 6]\<rparr>)]),
      (''wd_decoder'', [(''out.w'', \<lparr>shape = [3], elems = [9, 9, 9]\<rparr>)])]"

text \<open>The same checkpoint with a word-decoder parameter of another shape.\<close>

definition mismatched_checkpoint :: checkpoint where
  "mismatched_checkpoint =
     [(''encoder'', [(''embedding.weight'', \<lparr>shape = [3, 2], elems = [1, 2, 3, 4, 5, 6]\<rparr>),
                     (''rnn.w'', \<lparr>shape = [1, 2], elems = [7, 8]\<rparr>)]),
      (''sp_decoder'', [(''embedding.weight'', \<lparr>shape = [3, 2], elems = [1, 2, 3, 4, 5, 6]\<rparr>)]),
      (''wd_decoder'', [(''out.w'', \<lparr>shape = [4], elems = [9, 9, 9, 9]\<rparr>)])]"

text \<open>
  The float32 counterparts: the masked losses that \<open>compute_loss_f32\<close> and \<open>ppl_lst_f32\<close>
  both compute first, the loss of a position, and the perplexity of an example (its masked
  losses summed, divided by its length, clamped at 100, exponentiated).
\<close>

definition masked_losses_f32 ::
  "f32 tensor \<Rightarrow> int tensor \<Rightarrow> int tensor \<Rightarrow> int \<Rightarrow> error + f32 tensor" where
  "masked_losses_f32 readouts targets seq_len type_cnt =
     ebind (view_rows readouts type_cnt) (\<lambda>readouts_flat.
     let log_probs_flat = log_softmax_f32 readouts_flat in
     ebind (view_rows targets 1) (\<lambda>dec_targets_flat.
     ebind (gather log_probs_flat dec_targets_flat) (\<lambda>gathered.
     let losses_flat = tmap fneg gathered in
     ebind (view_as losses_flat (shape targets)) (\<lambda>losses.
     ebind (size_at targets 1) (\<lambda>max_len.
     let mask = get_sequence_mask_from_length seq_len max_len in
     tbinop fmul losses (f32_of_bool mask))))))"

definition position_loss_f32 :: "f32 tensor \<Rightarrow> int tensor \<Rightarrow> nat \<Rightarrow> nat \<Rightarrow> f32" where
  "position_loss_f32 readouts targets b j =
     fneg (log_softmax_row_f32
             (row_at (shape readouts ! 2) (elems readouts) (b * (shape readouts ! 1) + j))
           ! nat (at2 targets b j))"


section \<open>Lists of rows\<close>

lemma row_at_concat:
  "\<forall>xs \<in> set xss. length xs = c \<Longrightarrow> i < length xss \<Longrightarrow> row_at c (concat xss) i = xss ! i"
proof (induction xss arbitrary: i)
  case Nil then show ?case by simp
next
  case (Cons a xss)
  show ?case
  proof (cases i)
    case 0 then show ?thesis using Cons.prems by (simp add: row_at_def)
  next
    case (Suc k)
    then show ?thesis using Cons.prems Cons.IH[of k] by (simp add: row_at_def)
  qed
qed

lemma concat_row_at:
  "length xs = r * c \<Longrightarrow> concat (map (row_at c xs) [0..<r]) = xs"
proof (induction r arbitrary: xs)
  case 0 then show ?case by simp
next
  case (Suc r)
  have len: "length (drop c xs) = r * c" using Suc.prems by simp
  have shift: "\<And>i. row_at c xs (Suc i) = row_at c (drop c xs) i"
    by (simp add: row_at_def add.commute)
  have "[0..<Suc r] = 0 # map Suc [0..<r]"
    by (simp add: upt_conv_Cons map_Suc_upt del: upt_Suc)
  then have "map (row_at c xs) [0..<Suc r] = row_at c xs 0 # map (\<lambda>i. row_at c xs (Suc i)) [0..<r]"
    by (simp only: list.map map_map o_def)
  also have "\<dots> = take c xs # map (row_at c (drop c xs)) [0..<r]"
    by (simp only: shift) (simp add: row_at_def)
  finally have "concat (map (row_at c xs) [0..<Suc r]) = take c xs @ concat (map (row_at c (drop c xs)) [0..<r])"
    by (simp only: concat.simps)
  also have "\<dots> = take c xs @ drop c xs" by (simp only: Suc.IH[OF len])
  finally show ?case by simp
qed

lemma length_row_at:
  assumes "length xs = r * c" "i < r"
  shows "length (row_at c xs i) = c"
proof -
  have "Suc i * c \<le> r * c" using assms(2) by (intro mult_le_mono1) simp
  then show ?thesis using assms(1) by (simp add: row_at_def)
qed

lemma nth_row_at:
  assumes "length xs = r * c" "i < r" "k < c"
  shows "row_at c xs i ! k = xs ! (i * c + k)"
proof -
  have "Suc i * c \<le> r * c" using assms(2) by (intro mult_le_mono1) simp
  then show ?thesis using assms by (simp add: row_at_def)
qed

lemma nth_concat_rows:
  assumes "\<forall>xs \<in> set xss. length xs = c" "b < length xss" "j < c"
  shows "concat xss ! (b * c + j) = xss ! b ! j"
proof -
  have len: "length (concat xss) = length xss * c"
    using assms(1) by (induction xss) auto
  have "xss ! b ! j = row_at c (concat xss) b ! j"
    using row_at_concat[OF assms(1,2)] by simp
  also have "\<dots> = concat xss ! (b * c + j)"
    using nth_row_at[OF len assms(2,3)] .
  finally show ?thesis by simp
qed

lemma broadcast_shape_same: "broadcast_shape s s = Some s"
  by (induction s) auto

lemma expand_same: "length xs = prod_list s \<Longrightarrow> expand s s xs = xs"
proof (induction s arbitrary: xs)
  case Nil then show ?case by simp
next
  case (Cons d ds)
  have len: "length xs = d * prod_list ds" using Cons.prems by simp
  have "map (\<lambda>i. expand ds ds (row_at (prod_list ds) xs (if d = 1 then 0 else i))) [0..<d]
        = map (row_at (prod_list ds) xs) [0..<d]"
  proof (rule map_cong[OF refl])
    fix i assume "i \<in> set [0..<d]"
    then have i: "i < d" by simp
    then have "(if d = 1 then 0 else i) = i" by auto
    moreover have "length (row_at (prod_list ds) xs i) = prod_list ds"
      using length_row_at[OF len i] .
    ultimately show "expand ds ds (row_at (prod_list ds) xs (if d = 1 then 0 else i)) = row_at (prod_list ds) xs i"
      using Cons.IH by simp
  qed
  then have "expand (d # ds) (d # ds) xs = concat (map (row_at (prod_list ds) xs) [0..<d])"
    by (simp only: expand.simps)
  then show ?case by (simp only: concat_row_at[OF len])
qed

lemma tbinop_same_shape:
  assumes "shape a = shape b" "wf_tensor a" "wf_tensor b"
  shows "tbinop f a b = Inr \<lparr>shape = shape a, elems = map2 f (elems a) (elems b)\<rparr>"
  using assms
  by (simp add: tbinop_def pad_shape_def broadcast_shape_same expand_same wf_tensor_def)

lemma sum_rows:
  fixes g :: "nat \<Rightarrow> real"
  shows "(\<Sum>i<B * T. g i) = (\<Sum>b<B. \<Sum>j<T. g (b * T + j))"
proof (induction B)
  case 0 then show ?case by simp
next
  case (Suc B)
  have "(\<Sum>i<Suc B * T. g i) = (\<Sum>i<B * T. g i) + (\<Sum>i = B * T..<B * T + T. g i)"
    by (simp add: lessThan_atLeast0 add.commute sum.atLeastLessThan_concat)
  also have "(\<Sum>i = B * T..<B * T + T. g i) = (\<Sum>j<T. g (B * T + j))"
    using sum.shift_bounds_nat_ivl[of g 0 "B * T" T]
    by (simp add: lessThan_atLeast0 add.commute)
  finally show ?case using Suc.IH by simp
qed

lemma sum_list_map2_nth:
  fixes xs ys :: "real list"
  assumes "length xs = n" "length ys = n"
  shows "sum_list (map2 (*) xs ys) = (\<Sum>i<n. xs ! i * ys ! i)"
proof -
  have "sum_list (map2 (*) xs ys) = (\<Sum>i = 0..<length (map2 (*) xs ys). map2 (*) xs ys ! i)"
    by (rule sum_list_sum_nth)
  also have "\<dots> = (\<Sum>i<n. xs ! i * ys ! i)"
    using assms by (simp add: lessThan_atLeast0)
  finally show ?thesis .
qed

section \<open>The masked losses\<close>

lemma compute_loss_masked_losses:
  "compute_loss readouts targets seq_len type_cnt =
     ebind (masked_losses readouts targets seq_len type_cnt)
       (\<lambda>losses. Inr (tdiv (tsum losses) (tsum (float_of_int seq_len))))"
  by (simp add: compute_loss_def masked_losses_def ebind_def Let_def split: sum.splits)

lemma sum_list_exp_row:
  assumes "length xs = r * c" "i < r"
  shows "sum_list (map exp (row_at c xs i)) = (\<Sum>k<c. exp (xs ! (i * c + k)))"
proof -
  have "sum_list (map exp (row_at c xs i)) = (\<Sum>k = 0..<c. map exp (row_at c xs i) ! k)"
    using sum_list_sum_nth[of "map exp (row_at c xs i)"] length_row_at[OF assms] by simp
  also have "\<dots> = (\<Sum>k = 0..<c. exp (xs ! (i * c + k)))"
    using length_row_at[OF assms] nth_row_at[OF assms] by (intro sum.cong) auto
  finally show ?thesis by (simp add: lessThan_atLeast0)
qed

lemma log_softmax_row_at:
  assumes "shape t = [r, c]" "length (elems t) = r * c" "i < r"
  shows "row_at c (elems (log_softmax t)) i = log_softmax_row (row_at c (elems t) i)"
proof -
  have "\<forall>ys \<in> set (map log_softmax_row (rows_of t)). length ys = c"
    using assms(1) length_row_at[OF assms(2)] by (auto simp: rows_of_def log_softmax_row_def)
  moreover have "i < length (map log_softmax_row (rows_of t))"
    using assms(1,3) by (simp add: rows_of_def)
  ultimately have "row_at c (concat (map log_softmax_row (rows_of t))) i = map log_softmax_row (rows_of t) ! i"
    by (rule row_at_concat)
  then show ?thesis using assms(1,3) by (simp add: log_softmax_def rows_of_def)
qed

lemma gathered_nth:
  assumes "shape t = [r, c]" "length (elems t) = r * c" "i < r" "k < c"
  shows "row_at c (elems (log_softmax t)) i ! k
           = elems t ! (i * c + k) - ln (\<Sum>k<c. exp (elems t ! (i * c + k)))"
  using assms length_row_at[OF assms(2,3)] nth_row_at[OF assms(2,3,4)]
    sum_list_exp_row[OF assms(2,3)]
  by (simp add: log_softmax_row_at[OF assms(1,2,3)] log_softmax_row_def)

lemma masked_losses_eq:
  assumes ro: "length (elems readouts) = B * T * C" and C: "0 < C"
    and tg: "shape targets = [B, T]" "length (elems targets) = B * T"
    and sl: "length (elems seq_len) = B"
    and rng: "\<forall>k \<in> set (elems targets). 0 \<le> k \<and> k < int C"
  shows "masked_losses readouts targets seq_len (int C) =
           Inr \<lparr>shape = [B, T],
                elems = map2 (*) (map (nll_flat (elems readouts) (elems targets) C) [0..<B * T])
                          (map of_bool (concat (map (\<lambda>l. map (\<lambda>j. int j < l) [0..<T]) (elems seq_len))))\<rparr>"
proof -
  define rf where "rf = \<lparr>shape = [B * T, C], elems = elems readouts\<rparr>"
  have v1: "view_rows readouts (int C) = Inr rf"
    using ro C by (simp add: view_rows_def numel_def rf_def)
  define tf where "tf = \<lparr>shape = [B * T, 1], elems = elems targets\<rparr>"
  have v2: "view_rows targets 1 = Inr tf"
    using tg by (simp add: view_rows_def numel_def tf_def)
  define g where "g = \<lparr>shape = [B * T, 1],
      elems = map (\<lambda>i. row_at C (elems (log_softmax rf)) i ! nat (elems targets ! i)) [0..<B * T]\<rparr>"
  have norng: "\<not> (\<exists>j \<in> set (elems targets). j < 0 \<or> int C \<le> j)"
    using rng by auto
  have v3: "gather (log_softmax rf) tf = Inr g"
    using norng by (simp add: gather_def log_softmax_def rf_def tf_def g_def)
  have gel: "elems g = map (\<lambda>i. - nll_flat (elems readouts) (elems targets) C i) [0..<B * T]"
  proof -
    have "\<And>i. i < B * T \<Longrightarrow> row_at C (elems (log_softmax rf)) i ! nat (elems targets ! i)
             = - nll_flat (elems readouts) (elems targets) C i"
    proof -
      fix i assume i: "i < B * T"
      then have "elems targets ! i \<in> set (elems targets)" using tg(2) by simp
      then have k: "nat (elems targets ! i) < C" using rng by auto
      have "shape rf = [B * T, C]" "length (elems rf) = B * T * C"
        using ro by (simp_all add: rf_def)
      from gathered_nth[OF this i k] show "row_at C (elems (log_softmax rf)) i ! nat (elems targets ! i)
             = - nll_flat (elems readouts) (elems targets) C i"
        by (simp add: nll_flat_def rf_def)
    qed
    then show ?thesis by (simp add: g_def)
  qed
  define ls where "ls = \<lparr>shape = [B, T], elems = map (nll_flat (elems readouts) (elems targets) C) [0..<B * T]\<rparr>"
  have v4: "view_as (tmap uminus g) (shape targets) = Inr ls"
    using tg by (simp add: view_as_def tmap_def numel_def gel ls_def o_def)
  have v5: "size_at targets (Suc 0) = Inr T"
    using tg by (simp add: size_at_def)
  define mk where "mk = float_of_bool (get_sequence_mask_from_length seq_len T)"
  have mk: "shape mk = [B, T]"
    "elems mk = map of_bool (concat (map (\<lambda>l. map (\<lambda>j. int j < l) [0..<T]) (elems seq_len)))"
    using sl by (simp_all add: mk_def float_of_bool_def tmap_def get_sequence_mask_from_length_def numel_def)
  have lenmask: "length (concat (map (\<lambda>l. map (\<lambda>j. int j < l) [0..<T]) (elems seq_len))) = B * T"
    using sl by (simp add: length_concat o_def sum_list_triv)
  have wf: "wf_tensor ls" "wf_tensor mk" "shape ls = shape mk"
    using mk lenmask by (simp_all add: wf_tensor_def ls_def)
  have v6: "tbinop (*) ls mk = Inr \<lparr>shape = [B, T], elems = map2 (*) (elems ls) (elems mk)\<rparr>"
    using tbinop_same_shape[OF wf(3) wf(1) wf(2)] by (simp add: ls_def)
  have "masked_losses readouts targets seq_len (int C) = tbinop (*) ls mk"
    unfolding masked_losses_def mk_def
    by (simp add: v1 ebind_def Let_def v2 v3 v4 v5)
  then show ?thesis
    by (simp add: v6 mk(2)) (simp add: ls_def)
qed

lemma mask_nth:
  assumes "b < length ls" "j < T"
  shows "concat (map (\<lambda>l. map (\<lambda>j. int j < l) [0..<T]) ls) ! (b * T + j) = (int j < ls ! b)"
proof -
  have "\<forall>xs \<in> set (map (\<lambda>l. map (\<lambda>j. int j < l) [0..<T]) ls). length xs = T" by simp
  moreover have "b < length (map (\<lambda>l. map (\<lambda>j. int j < l) [0..<T]) ls)" using assms by simp
  ultimately have "concat (map (\<lambda>l. map (\<lambda>j. int j < l) [0..<T]) ls) ! (b * T + j)
      = map (\<lambda>l. map (\<lambda>j. int j < l) [0..<T]) ls ! b ! j"
    using assms(2) by (rule nth_concat_rows)
  then show ?thesis using assms by simp
qed

lemma nll_flat_position:
  assumes "shape readouts = [B, T, C]" "shape targets = [B, T]"
  shows "nll_flat (elems readouts) (elems targets) C (b * T + j) = position_loss readouts targets b j"
  using assms by (simp add: nll_flat_def position_loss_def log_prob_def at2_def at3_def)

lemma masked_sum_eq:
  fixes ls :: "int list"
  assumes "length ls = B"
  shows "sum_list (map2 (*) (map f [0..<B * T])
            (map of_bool (concat (map (\<lambda>l. map (\<lambda>j. int j < l) [0..<T]) ls))))
         = (\<Sum>b<B. \<Sum>j<T. of_bool (int j < ls ! b) * (f (b * T + j) :: real))"
proof -
  let ?ms = "map of_bool (concat (map (\<lambda>l. map (\<lambda>j. int j < l) [0..<T]) ls)) :: real list"
  have "length (concat (map (\<lambda>l. map (\<lambda>j. int j < l) [0..<T]) ls)) = length ls * T"
    by (induction ls) simp_all
  then have lenc: "length (concat (map (\<lambda>l. map (\<lambda>j. int j < l) [0..<T]) ls)) = B * T"
    using assms by simp
  then have lenm: "length ?ms = B * T"
    by simp
  have "sum_list (map2 (*) (map f [0..<B * T]) ?ms) = (\<Sum>i<B * T. map f [0..<B * T] ! i * ?ms ! i)"
    by (rule sum_list_map2_nth) (simp_all add: lenc)
  also have "\<dots> = (\<Sum>b<B. \<Sum>j<T. map f [0..<B * T] ! (b * T + j) * ?ms ! (b * T + j))"
    by (rule sum_rows)
  also have "\<dots> = (\<Sum>b<B. \<Sum>j<T. of_bool (int j < ls ! b) * f (b * T + j))"
  proof (intro sum.cong refl)
    fix b j assume "b \<in> {..<B}" "j \<in> {..<T}"
    then have b: "b < B" and j: "j < T" by simp_all
    have "Suc b * T \<le> B * T" using b by (intro mult_le_mono1) simp
    then have lt: "b * T + j < B * T" using j by simp
    have "?ms ! (b * T + j) = of_bool (int j < ls ! b)"
      using mask_nth[of b ls j T] b j assms lt lenc by simp
    then show "map f [0..<B * T] ! (b * T + j) * ?ms ! (b * T + j) = of_bool (int j < ls ! b) * f (b * T + j)"
      using lt by simp
  qed
  finally show ?thesis .
qed

lemma compute_loss_formula:
  assumes ro: "wf_tensor readouts" "shape readouts = [B, T, C]"
    and tg: "wf_tensor targets" "shape targets = [B, T]"
    and sl: "wf_tensor seq_len" "shape seq_len = [B]"
    and C: "0 < C"
    and rng: "\<forall>k \<in> set (elems targets). 0 \<le> k \<and> k < int C"
  shows "compute_loss readouts targets seq_len (int C) = Inr (masked_nll readouts targets seq_len)"
proof -
  have lens: "length (elems readouts) = B * T * C" "length (elems targets) = B * T"
    "length (elems seq_len) = B"
    using ro tg sl by (simp_all add: wf_tensor_def)
  note ml = masked_losses_eq[OF lens(1) C tg(2) lens(2) lens(3) rng]
  have num: "sum_list (map2 (*) (map (nll_flat (elems readouts) (elems targets) C) [0..<B * T])
            (map of_bool (concat (map (\<lambda>l. map (\<lambda>j. int j < l) [0..<T]) (elems seq_len)))))
        = (\<Sum>b<B. \<Sum>j<T. of_bool (valid_position seq_len b j) * position_loss readouts targets b j)"
    using masked_sum_eq[OF lens(3), of "nll_flat (elems readouts) (elems targets) C" T]
    by (simp add: nll_flat_position[OF ro(2) tg(2)] valid_position_def)
  have den: "tsum (float_of_int seq_len) = (\<Sum>b<B. real_of_int (elems seq_len ! b))"
    using sum_list_sum_nth[of "map real_of_int (elems seq_len)"] lens(3)
    by (simp add: tsum_def float_of_int_def tmap_def lessThan_atLeast0)
  have "compute_loss readouts targets seq_len (int C)
      = Inr (tdiv (\<Sum>b<B. \<Sum>j<T. of_bool (valid_position seq_len b j) * position_loss readouts targets b j)
               (\<Sum>b<B. real_of_int (elems seq_len ! b)))"
    unfolding compute_loss_masked_losses ml
    by (simp only: ebind_def sum.case den) (simp only: tsum_def tensor.simps num)
  then show ?thesis
    by (simp only: masked_nll_def tg(2) nth_Cons_0 nth_Cons_Suc One_nat_def)
qed

section \<open>Claims about the masked sequence loss\<close>

text \<open>
  Claim C1. For a batch of \<open>B\<close> examples of \<open>T\<close> positions with readouts over \<open>C\<close>
  classes (\<open>type_cnt = C\<close>), targets in the class range and one length per example,
  \<open>compute_loss\<close> returns the masked negative log-likelihood of the specification: the
  log-softmax over the class axis, taken at each position's target class and negated,
  kept only where the position index is less than the example's true length, summed over
  the batch and divided by the sum of all lengths (a mean over tokens, not over examples).
\<close>

theorem compute_loss_is_masked_nll:
  assumes "wf_tensor readouts" "shape readouts = [B, T, C]"
    and "wf_tensor targets" "shape targets = [B, T]"
    and "wf_tensor seq_len" "shape seq_len = [B]"
    and "0 < C"
    and "\<forall>k \<in> set (elems targets). 0 \<le> k \<and> k < int C"
  shows "compute_loss readouts targets seq_len (int C) = Inr (masked_nll readouts targets seq_len)"
  using assms by (rule compute_loss_formula)

theorem compute_loss_is_masked_nll_witness:
  "compute_loss \<lparr>shape = [1, 2, 2], elems = [0, 1, 2, 3]\<rparr> \<lparr>shape = [1, 2], elems = [0, 1]\<rparr>
       \<lparr>shape = [1], elems = [1]\<rparr> 2
     = Inr (masked_nll \<lparr>shape = [1, 2, 2], elems = [0, 1, 2, 3]\<rparr> \<lparr>shape = [1, 2], elems = [0, 1]\<rparr>
              \<lparr>shape = [1], elems = [1]\<rparr>)"
  using compute_loss_is_masked_nll [of "\<lparr>shape = [1, 2, 2], elems = [0, 1, 2, 3]\<rparr>" 1 2 2
      "\<lparr>shape = [1, 2], elems = [0, 1]\<rparr>" "\<lparr>shape = [1], elems = [1]\<rparr>"]
  by (simp add: wf_tensor_def)

lemma masked_nll_cong:
  assumes sh: "shape targets1 = [B, T]" "shape targets2 = [B, T]"
    and agree: "\<And>b j. b < B \<Longrightarrow> j < T \<Longrightarrow> valid_position seq_len b j \<Longrightarrow>
        position_loss readouts1 targets1 b j = position_loss readouts2 targets2 b j"
  shows "masked_nll readouts1 targets1 seq_len = masked_nll readouts2 targets2 seq_len"
proof -
  have "(\<Sum>b<B. \<Sum>j<T. of_bool (valid_position seq_len b j) * position_loss readouts1 targets1 b j)
      = (\<Sum>b<B. \<Sum>j<T. of_bool (valid_position seq_len b j) * position_loss readouts2 targets2 b j)"
    by (intro sum.cong refl) (simp add: agree)
  then show ?thesis by (simp add: masked_nll_def sh)
qed

lemma position_loss_cong:
  assumes "shape readouts1 = [B, T, C]" "shape readouts2 = [B, T, C]"
    and "at2 targets1 b j = at2 targets2 b j"
    and "\<And>k. k < C \<Longrightarrow> at3 readouts1 b j k = at3 readouts2 b j k"
    and "nat (at2 targets1 b j) < C"
  shows "position_loss readouts1 targets1 b j = position_loss readouts2 targets2 b j"
proof -
  have "(\<Sum>c<C. exp (at3 readouts1 b j c)) = (\<Sum>c<C. exp (at3 readouts2 b j c))"
    by (intro sum.cong refl) (simp add: assms(4))
  then show ?thesis
    using assms by (simp add: position_loss_def log_prob_def)
qed

lemma at2_in_set:
  assumes "wf_tensor t" "shape t = [B, T]" "b < B" "j < T"
  shows "at2 t b j \<in> set (elems t)"
proof -
  have "Suc b * T \<le> B * T" using assms(3) by (intro mult_le_mono1) simp
  then have "b * T + j < B * T" using assms(4) by simp
  then show ?thesis using assms(1,2) by (simp add: at2_def wf_tensor_def)
qed

text \<open>
  Over the reals, where every loss is a number and a number times zero is zero, what
  stands at the positions at or beyond the true length does not change the loss. On
  floats this needs a condition; see section \<open>Padding in the float32 range\<close>.
\<close>

lemma compute_loss_real_ignores_padding:
  assumes "wf_tensor readouts1" "shape readouts1 = [B, T, C]"
    and "wf_tensor readouts2" "shape readouts2 = [B, T, C]"
    and "wf_tensor targets1" "shape targets1 = [B, T]"
    and "wf_tensor targets2" "shape targets2 = [B, T]"
    and "wf_tensor seq_len" "shape seq_len = [B]"
    and "0 < C"
    and "\<forall>k \<in> set (elems targets1). 0 \<le> k \<and> k < int C"
    and "\<forall>k \<in> set (elems targets2). 0 \<le> k \<and> k < int C"
    and "\<forall>b j. b < B \<and> j < T \<and> int j < elems seq_len ! b \<longrightarrow>
           at2 targets1 b j = at2 targets2 b j \<and>
           (\<forall>k < C. at3 readouts1 b j k = at3 readouts2 b j k)"
  shows "compute_loss readouts1 targets1 seq_len (int C) = compute_loss readouts2 targets2 seq_len (int C)"
proof -
  have "masked_nll readouts1 targets1 seq_len = masked_nll readouts2 targets2 seq_len"
  proof (rule masked_nll_cong[OF assms(6) assms(8)])
    fix b j assume bj: "b < B" "j < T" "valid_position seq_len b j"
    then have ag: "at2 targets1 b j = at2 targets2 b j"
      "\<And>k. k < C \<Longrightarrow> at3 readouts1 b j k = at3 readouts2 b j k"
      using assms(14) by (auto simp: valid_position_def)
    have "nat (at2 targets1 b j) < C"
      using at2_in_set[OF assms(5,6) bj(1,2)] assms(12) assms(11) by auto
    with ag show "position_loss readouts1 targets1 b j = position_loss readouts2 targets2 b j"
      by (intro position_loss_cong[OF assms(2) assms(4)])
  qed
  then show ?thesis
    using compute_loss_formula[OF assms(1,2,5,6,9,10,11,12)]
      compute_loss_formula[OF assms(3,4,7,8,9,10,11,13)]
    by simp
qed

section \<open>Claims about the phrase-attention loss\<close>

lemma binary_mask_sum:
  fixes ms :: "int list" and g :: "nat \<Rightarrow> real"
  assumes "\<forall>m \<in> set ms. m = 0 \<or> m = 1"
  shows "(\<Sum>i<length ms. g i * real_of_int (ms ! i)) = (\<Sum>i \<in> {i. i < length ms \<and> ms ! i = 1}. g i)"
proof -
  have "(\<Sum>i<length ms. g i * real_of_int (ms ! i)) = (\<Sum>i<length ms. if ms ! i = 1 then g i else 0)"
  proof (intro sum.cong refl)
    fix i assume "i \<in> {..<length ms}"
    then have "ms ! i \<in> set ms" by simp
    then have "ms ! i = 0 \<or> ms ! i = 1" using assms by blast
    then show "g i * real_of_int (ms ! i) = (if ms ! i = 1 then g i else 0)" by auto
  qed
  also have "\<dots> = (\<Sum>i \<in> {..<length ms} \<inter> {i. ms ! i = 1}. g i)"
    by (simp add: sum.If_cases)
  also have "{..<length ms} \<inter> {i. ms ! i = 1} = {i. i < length ms \<and> ms ! i = 1}"
    by auto
  finally show ?thesis .
qed

lemma binary_mask_count:
  fixes ms :: "int list"
  assumes "\<forall>m \<in> set ms. m = 0 \<or> m = 1"
  shows "real_of_int (sum_list ms) = real (card {i. i < length ms \<and> ms ! i = 1})"
proof -
  have "real_of_int (sum_list ms) = (\<Sum>i<length ms. real_of_int (ms ! i))"
    using sum_list_sum_nth[of ms] by (simp add: lessThan_atLeast0)
  also have "\<dots> = (\<Sum>i<length ms. 1 * real_of_int (ms ! i))" by simp
  also have "\<dots> = (\<Sum>i \<in> {i. i < length ms \<and> ms ! i = 1}. 1)"
    using assms by (rule binary_mask_sum)
  finally show ?thesis by simp
qed

lemma compute_ph_attn_loss_formula:
  assumes wf: "wf_tensor ph_sel_target" "wf_tensor align_vectors" "wf_tensor mask'"
    and sh: "shape ph_sel_target = shape align_vectors" "shape mask' = shape align_vectors"
    and pr: "\<forall>x \<in> set (elems align_vectors). 0 \<le> x \<and> x \<le> 1"
  shows "compute_ph_attn_loss ph_sel_target align_vectors mask' =
           Inr (tdiv (\<Sum>i<numel mask'. bce (elems align_vectors ! i) (real_of_int (elems ph_sel_target ! i))
                                  * real_of_int (elems mask' ! i))
                     (real_of_int (isum mask')))"
proof -
  define n where "n = numel mask'"
  have len: "length (elems ph_sel_target) = n" "length (elems align_vectors) = n" "length (elems mask') = n"
    using wf sh by (simp_all add: wf_tensor_def n_def numel_def)
  define l where "l = \<lparr>shape = shape align_vectors,
      elems = map2 bce (elems align_vectors) (elems (float_of_int ph_sel_target))\<rparr>"
  have norng: "\<not> (\<exists>x \<in> set (elems align_vectors). x < 0 \<or> 1 < x)"
    using pr by auto
  have b: "binary_cross_entropy align_vectors (float_of_int ph_sel_target) = Inr l"
    using sh norng by (simp add: binary_cross_entropy_def float_of_int_def tmap_def l_def)
  have wfl: "wf_tensor l" "wf_tensor (float_of_int mask')" "shape l = shape (float_of_int mask')"
    using wf sh len by (simp_all add: wf_tensor_def l_def float_of_int_def tmap_def)
  note m = tbinop_same_shape[OF wfl(3) wfl(1) wfl(2), of "(*)"]
  have "sum_list (map2 (*) (elems l) (elems (float_of_int mask')))
      = (\<Sum>i<n. elems l ! i * elems (float_of_int mask') ! i)"
    by (rule sum_list_map2_nth) (simp_all add: l_def float_of_int_def tmap_def len)
  also have "\<dots> = (\<Sum>i<n. bce (elems align_vectors ! i) (real_of_int (elems ph_sel_target ! i))
                                  * real_of_int (elems mask' ! i))"
    by (intro sum.cong refl) (simp add: l_def float_of_int_def tmap_def len)
  finally have num: "sum_list (map2 (*) (elems l) (elems (float_of_int mask')))
      = (\<Sum>i<numel mask'. bce (elems align_vectors ! i) (real_of_int (elems ph_sel_target ! i))
                                  * real_of_int (elems mask' ! i))"
    by (simp add: n_def)
  show ?thesis
    unfolding compute_ph_attn_loss_def b ebind_def sum.case m
    by (simp only: tsum_def tensor.simps num)
qed

text \<open>
  Claim C5. For indicator targets, attention probabilities in \<open>[0, 1]\<close> and a 0-1 mask of
  one common shape, \<open>compute_ph_attn_loss\<close> is the element-wise binary cross-entropy of
  the probabilities against the indicators, summed over the pairs whose mask is 1 and
  divided by the number of those pairs, which is the sum of the mask.
\<close>

theorem compute_ph_attn_loss_is_masked_bce:
  assumes "wf_tensor ph_sel_target" "wf_tensor align_vectors" "wf_tensor mask'"
    and "shape ph_sel_target = shape align_vectors" "shape mask' = shape align_vectors"
    and "\<forall>x \<in> set (elems align_vectors). 0 \<le> x \<and> x \<le> 1"
    and "\<forall>m \<in> set (elems mask'). m = 0 \<or> m = 1"
  shows "compute_ph_attn_loss ph_sel_target align_vectors mask' =
           Inr (masked_bce ph_sel_target align_vectors mask')"
proof -
  have "(\<Sum>i<numel mask'. bce (elems align_vectors ! i) (real_of_int (elems ph_sel_target ! i))
                                  * real_of_int (elems mask' ! i))
      = (\<Sum>i \<in> valid_pairs mask'. bce (elems align_vectors ! i) (real_of_int (elems ph_sel_target ! i)))"
    using binary_mask_sum[OF assms(7)] by (simp add: valid_pairs_def numel_def)
  moreover have "real_of_int (isum mask') = real (card (valid_pairs mask'))"
    using binary_mask_count[OF assms(7)] by (simp add: valid_pairs_def numel_def isum_def)
  ultimately show ?thesis
    using compute_ph_attn_loss_formula[OF assms(1-6)] by (simp add: masked_bce_def)
qed

theorem compute_ph_attn_loss_is_masked_bce_witness:
  "compute_ph_attn_loss \<lparr>shape = [1, 2], elems = [1, 0]\<rparr> \<lparr>shape = [1, 2], elems = [1 / 2, 1 / 4]\<rparr>
       \<lparr>shape = [1, 2], elems = [1, 0]\<rparr>
     = Inr (masked_bce \<lparr>shape = [1, 2], elems = [1, 0]\<rparr> \<lparr>shape = [1, 2], elems = [1 / 2, 1 / 4]\<rparr>
              \<lparr>shape = [1, 2], elems = [1, 0]\<rparr>)"
  using compute_ph_attn_loss_is_masked_bce [of "\<lparr>shape = [1, 2], elems = [1, 0]\<rparr>"
      "\<lparr>shape = [1, 2], elems = [1 / 2, 1 / 4]\<rparr>" "\<lparr>shape = [1, 2], elems = [1, 0]\<rparr>"]
  by (simp add: wf_tensor_def)

section \<open>Denominators\<close>

lemma sum_list_real_of_int: "sum_list (map real_of_int xs) = real_of_int (sum_list xs)"
  by (induction xs) simp_all

lemma tsum_float_of_int: "tsum (float_of_int t) = real_of_int (isum t)"
  by (simp add: tsum_def float_of_int_def tmap_def isum_def sum_list_real_of_int)

lemma compute_loss_returns:
  assumes "wf_tensor readouts" "shape readouts = [B, T, C]"
    and "wf_tensor targets" "shape targets = [B, T]"
    and "wf_tensor seq_len" "shape seq_len = [B]"
    and "0 < C"
    and "\<forall>k \<in> set (elems targets). 0 \<le> k \<and> k < int C"
  shows "\<exists>x. compute_loss readouts targets seq_len (int C) = Inr (tdiv x (real_of_int (isum seq_len)))"
proof -
  have len: "length (elems readouts) = B * T * C" "length (elems targets) = B * T"
    "length (elems seq_len) = B"
    using assms by (simp_all add: wf_tensor_def)
  show ?thesis
    unfolding compute_loss_masked_losses
      masked_losses_eq[OF len(1) assms(7) assms(4) len(2) len(3) assms(8)]
    by (simp add: ebind_def tsum_float_of_int) blast
qed

text \<open>
  Claim C7. When the sum of the true lengths is positive, the denominator of
  \<open>compute_loss\<close> is not zero and the function returns a number; when the sum of the
  mask is positive, the same holds of \<open>compute_ph_attn_loss\<close>. Neither function checks
  its denominator: with a zero denominator it raises nothing and returns the result of
  the division by zero.
\<close>

theorem denominators_nonzero:
  assumes "wf_tensor readouts" "shape readouts = [B, T, C]"
    and "wf_tensor targets" "shape targets = [B, T]"
    and "wf_tensor seq_len" "shape seq_len = [B]"
    and "0 < C"
    and "\<forall>k \<in> set (elems targets). 0 \<le> k \<and> k < int C"
    and "wf_tensor ph_sel_target" "wf_tensor align_vectors" "wf_tensor mask'"
    and "shape ph_sel_target = shape align_vectors" "shape mask' = shape align_vectors"
    and "\<forall>x \<in> set (elems align_vectors). 0 \<le> x \<and> x \<le> 1"
  shows "(0 < isum seq_len \<longrightarrow>
            tsum (float_of_int seq_len) \<noteq> 0 \<and>
            (\<exists>v. compute_loss readouts targets seq_len (int C) = Inr (Fin v))) \<and>
         (isum seq_len = 0 \<longrightarrow> compute_loss readouts targets seq_len (int C) = Inr DivZero) \<and>
         (0 < isum mask' \<longrightarrow>
            real_of_int (isum mask') \<noteq> 0 \<and>
            (\<exists>v. compute_ph_attn_loss ph_sel_target align_vectors mask' = Inr (Fin v))) \<and>
         (isum mask' = 0 \<longrightarrow> compute_ph_attn_loss ph_sel_target align_vectors mask' = Inr DivZero)"
proof -
  obtain x where x: "compute_loss readouts targets seq_len (int C) = Inr (tdiv x (real_of_int (isum seq_len)))"
    using compute_loss_returns[OF assms(1-8)] by blast
  have "0 < isum seq_len \<longrightarrow> tsum (float_of_int seq_len) \<noteq> 0 \<and>
            (\<exists>v. compute_loss readouts targets seq_len (int C) = Inr (Fin v))"
    by (simp add: x tdiv_def tsum_float_of_int)
  moreover have "isum seq_len = 0 \<longrightarrow> compute_loss readouts targets seq_len (int C) = Inr DivZero"
    by (simp add: x tdiv_def)
  moreover have "0 < isum mask' \<longrightarrow> real_of_int (isum mask') \<noteq> 0 \<and>
            (\<exists>v. compute_ph_attn_loss ph_sel_target align_vectors mask' = Inr (Fin v))"
    by (simp add: compute_ph_attn_loss_formula[OF assms(9-14)] tdiv_def)
  moreover have "isum mask' = 0 \<longrightarrow> compute_ph_attn_loss ph_sel_target align_vectors mask' = Inr DivZero"
    by (simp add: compute_ph_attn_loss_formula[OF assms(9-14)] tdiv_def)
  ultimately show ?thesis by blast
qed

theorem denominators_nonzero_witness:
  "(\<exists>v. compute_loss \<lparr>shape = [1, 2, 2], elems = [0, 1, 2, 3]\<rparr> \<lparr>shape = [1, 2], elems = [0, 1]\<rparr>
       \<lparr>shape = [1], elems = [1]\<rparr> 2 = Inr (Fin v)) \<and>
   (\<exists>v. compute_ph_attn_loss \<lparr>shape = [1, 2], elems = [1, 0]\<rparr> \<lparr>shape = [1, 2], elems = [1 / 2, 1 / 4]\<rparr>
       \<lparr>shape = [1, 2], elems = [1, 0]\<rparr> = Inr (Fin v)) \<and>
   compute_loss \<lparr>shape = [1, 2, 2], elems = [0, 1, 2, 3]\<rparr> \<lparr>shape = [1, 2], elems = [0, 1]\<rparr>
       \<lparr>shape = [1], elems = [0]\<rparr> 2 = Inr DivZero \<and>
   compute_ph_attn_loss \<lparr>shape = [1, 2], elems = [1, 0]\<rparr> \<lparr>shape = [1, 2], elems = [1 / 2, 1 / 4]\<rparr>
       \<lparr>shape = [1, 2], elems = [0, 0]\<rparr> = Inr DivZero"
  using denominators_nonzero [of "\<lparr>shape = [1, 2, 2], elems = [0, 1, 2, 3]\<rparr>" 1 2 2
      "\<lparr>shape = [1, 2], elems = [0, 1]\<rparr>" "\<lparr>shape = [1], elems = [1]\<rparr>"
      "\<lparr>shape = [1, 2], elems = [1, 0]\<rparr>" "\<lparr>shape = [1, 2], elems = [1 / 2, 1 / 4]\<rparr>"
      "\<lparr>shape = [1, 2], elems = [1, 0]\<rparr>"]
    denominators_nonzero [of "\<lparr>shape = [1, 2, 2], elems = [0, 1, 2, 3]\<rparr>" 1 2 2
      "\<lparr>shape = [1, 2], elems = [0, 1]\<rparr>" "\<lparr>shape = [1], elems = [0]\<rparr>"
      "\<lparr>shape = [1, 2], elems = [1, 0]\<rparr>" "\<lparr>shape = [1, 2], elems = [1 / 2, 1 / 4]\<rparr>"
      "\<lparr>shape = [1, 2], elems = [0, 0]\<rparr>"]
  by (simp add: wf_tensor_def isum_def)

section \<open>The uniform scenario\<close>

lemma upt_3: "[0..<3] = [0, 1, 2]"
  by code_simp

lemma upt_6: "[0..<6] = [0, 1, 2, 3, 4, 5]"
  by code_simp

lemma log_prob_zeros:
  "\<forall>b<2. \<forall>j<3. \<forall>k<5. log_prob \<lparr>shape = [2, 3, 5], elems = replicate 30 0\<rparr> b j k = - ln 5"
proof (intro allI impI)
  fix b j k :: nat assume "b < 2" "j < 3" "k < 5"
  then have "Suc b * 3 \<le> 2 * 3" by simp
  then have "b * 3 + j < 6" using \<open>j < 3\<close> by simp
  then have "Suc (b * 3 + j) * 5 \<le> 6 * 5" by simp
  then have "\<And>c. c < 5 \<Longrightarrow> (b * 3 + j) * 5 + c < 30" by simp
  then show "log_prob \<lparr>shape = [2, 3, 5], elems = replicate 30 0\<rparr> b j k = - ln 5"
    using \<open>k < 5\<close> by (simp add: log_prob_def at3_def numeral_3_eq_3)
qed

text \<open>
  Claim C8. A batch of 2 examples with true lengths 3 and 1, 5 classes, target ids
  \<open>[[1, 2, 3], [4, pad, pad]]\<close> (any pad ids in the class range) and readouts whose
  log-softmax is uniform over the 5 classes at every position: the loss of every valid
  position is \<open>ln 5\<close>, the padded positions are zeroed, and \<open>compute_loss\<close> returns
  exactly \<open>ln 5\<close>.
\<close>

theorem uniform_scenario:
  assumes "wf_tensor readouts" "shape readouts = [2, 3, 5]"
    and "\<forall>b<2. \<forall>j<3. \<forall>k<5. log_prob readouts b j k = - ln 5"
    and "0 \<le> pad1" "pad1 < 5" "0 \<le> pad2" "pad2 < 5"
  shows "masked_losses readouts \<lparr>shape = [2, 3], elems = [1, 2, 3, 4, pad1, pad2]\<rparr>
             \<lparr>shape = [2], elems = [3, 1]\<rparr> 5
           = Inr \<lparr>shape = [2, 3], elems = [ln 5, ln 5, ln 5, ln 5, 0, 0]\<rparr> \<and>
         compute_loss readouts \<lparr>shape = [2, 3], elems = [1, 2, 3, 4, pad1, pad2]\<rparr>
             \<lparr>shape = [2], elems = [3, 1]\<rparr> 5
           = Inr (Fin (ln 5))"
proof -
  let ?tg = "\<lparr>shape = [2, 3], elems = [1, 2, 3, 4, pad1, pad2]\<rparr> :: int tensor"
  let ?sl = "\<lparr>shape = [2], elems = [3, 1]\<rparr> :: int tensor"
  have len: "length (elems readouts) = 2 * 3 * 5" using assms(1,2) by (simp add: wf_tensor_def)
  have rng: "\<forall>k \<in> set (elems ?tg). 0 \<le> k \<and> k < int 5" using assms(4-7) by simp
  have pl: "\<And>b j. b < 2 \<Longrightarrow> j < 3 \<Longrightarrow>
      nll_flat (elems readouts) (elems ?tg) 5 (b * 3 + j) = ln 5"
  proof -
    fix b j :: nat assume bj: "b < 2" "j < 3"
    have "at2 ?tg b j \<in> set (elems ?tg)"
      by (rule at2_in_set[of _ 2 3]) (simp_all add: wf_tensor_def bj)
    then have "nat (at2 ?tg b j) < 5" using rng by auto
    then have "log_prob readouts b j (nat (at2 ?tg b j)) = - ln 5"
      using assms(3) bj by blast
    then show "nll_flat (elems readouts) (elems ?tg) 5 (b * 3 + j) = ln 5"
      using nll_flat_position[OF assms(2), of ?tg b j] by (simp add: position_loss_def)
  qed
  have "map (nll_flat (elems readouts) (elems ?tg) 5) [0..<6] = map (\<lambda>i. ln 5) [0..<6]"
  proof (rule map_cong[OF refl])
    fix i :: nat assume "i \<in> set [0..<6]"
    then have "i div 3 < 2" "i mod 3 < 3" by simp_all
    from pl[OF this] show "nll_flat (elems readouts) (elems ?tg) 5 i = ln 5" by simp
  qed
  then have nl: "map (nll_flat (elems readouts) (elems ?tg) 5) [0..<6] = [ln 5, ln 5, ln 5, ln 5, ln 5, ln 5]"
    by (simp only: upt_6 list.map)
  have ml: "masked_losses readouts ?tg ?sl 5 = Inr \<lparr>shape = [2, 3], elems = [ln 5, ln 5, ln 5, ln 5, 0, 0]\<rparr>"
    using masked_losses_eq[of readouts 2 3 5 ?tg ?sl, OF len _ _ _ _ rng] nl
    by (simp add: upt_3)
  moreover have "compute_loss readouts ?tg ?sl 5 = Inr (Fin (ln 5))"
    using ml by (simp add: compute_loss_masked_losses ebind_def tsum_def tdiv_def float_of_int_def tmap_def)
  ultimately show ?thesis by blast
qed

theorem uniform_scenario_witness:
  "compute_loss \<lparr>shape = [2, 3, 5], elems = replicate 30 0\<rparr>
       \<lparr>shape = [2, 3], elems = [1, 2, 3, 4, 0, 0]\<rparr> \<lparr>shape = [2], elems = [3, 1]\<rparr> 5
     = Inr (Fin (ln 5))"
  using uniform_scenario [of "\<lparr>shape = [2, 3, 5], elems = replicate 30 0\<rparr>" 0 0] log_prob_zeros
  by (simp add: wf_tensor_def)

section \<open>Claims about the perplexity\<close>

lemma ppl_lst_masked_losses:
  "ppl_lst type_cnt readouts targets seq_len =
     ebind (masked_losses readouts targets seq_len type_cnt) (\<lambda>losses'.
     ebind (sum_dim losses' 1) (\<lambda>losses_sum.
     ebind (tbinop tdiv losses_sum (float_of_int seq_len)) (\<lambda>probs_normalized.
     ebind (tbinop smin probs_normalized (tmap ((*) 100) (ones (shape probs_normalized))))
       (\<lambda>probs_normalized'.
     Inr (tmap sexp probs_normalized')))))"
  by (simp add: ppl_lst_def masked_losses_def ebind_def Let_def split: sum.splits)

lemma sum_dim_rows:
  assumes "shape t = [B, T]"
  shows "sum_dim t 1 = Inr \<lparr>shape = [B], elems = map (\<lambda>b. \<Sum>j<T. elems t ! (b * T + j)) [0..<B]\<rparr>"
proof -
  have "\<And>b. (\<Sum>j\<leftarrow>[0..<T]. elems t ! (b * T + j)) = (\<Sum>j<T. elems t ! (b * T + j))"
    by (simp add: sum_list_sum_nth lessThan_atLeast0 interv_sum_list_conv_sum_set_nat)
  then show ?thesis using assms by (simp add: sum_dim_def Let_def)
qed

lemma masked_elem:
  fixes ls :: "int list"
  assumes "length ls = B" "b < B" "j < T"
  shows "map2 (*) (map f [0..<B * T])
            (map of_bool (concat (map (\<lambda>l. map (\<lambda>j. int j < l) [0..<T]) ls))) ! (b * T + j)
         = of_bool (int j < ls ! b) * (f (b * T + j) :: real)"
proof -
  have "length (concat (map (\<lambda>l. map (\<lambda>j. int j < l) [0..<T]) ls)) = length ls * T"
    by (induction ls) simp_all
  then have lenc: "length (concat (map (\<lambda>l. map (\<lambda>j. int j < l) [0..<T]) ls)) = B * T"
    using assms by simp
  have "Suc b * T \<le> B * T" using assms(2) by (intro mult_le_mono1) simp
  then have lt: "b * T + j < B * T" using assms(3) by simp
  show ?thesis
    using mask_nth[of b ls j T] assms lt lenc by simp
qed

lemma ppl_lst_general:
  assumes ro: "wf_tensor readouts" "shape readouts = [B, T, C]"
    and tg: "wf_tensor targets" "shape targets = [B, T]"
    and sl: "wf_tensor seq_len" "shape seq_len = [B]"
    and C: "0 < C"
    and rng: "\<forall>k \<in> set (elems targets). 0 \<le> k \<and> k < int C"
  shows "ppl_lst (int C) readouts targets seq_len =
           Inr \<lparr>shape = [B],
                elems = map (\<lambda>b. if elems seq_len ! b = 0 then DivZero
                                 else Fin (example_ppl readouts targets seq_len b)) [0..<B]\<rparr>"
proof -
  have lens: "length (elems readouts) = B * T * C" "length (elems targets) = B * T"
    "length (elems seq_len) = B"
    using ro tg sl by (simp_all add: wf_tensor_def)
  define E where "E = map2 (*) (map (nll_flat (elems readouts) (elems targets) C) [0..<B * T])
                          (map of_bool (concat (map (\<lambda>l. map (\<lambda>j. int j < l) [0..<T]) (elems seq_len))))"
  have ml: "masked_losses readouts targets seq_len (int C) = Inr \<lparr>shape = [B, T], elems = E\<rparr>"
    unfolding E_def by (rule masked_losses_eq[OF lens(1) C tg(2) lens(2) lens(3) rng])
  define S where "S = map (\<lambda>b. \<Sum>j<T. of_bool (valid_position seq_len b j) * position_loss readouts targets b j) [0..<B]"
  have "map (\<lambda>b. \<Sum>j<T. E ! (b * T + j)) [0..<B] = S"
    unfolding S_def
  proof (rule map_cong[OF refl], rule sum.cong[OF refl])
    fix b j assume "b \<in> set [0..<B]" "j \<in> {..<T}"
    then have bj: "b < B" "j < T" by simp_all
    show "E ! (b * T + j) = of_bool (valid_position seq_len b j) * position_loss readouts targets b j"
      unfolding E_def masked_elem[OF lens(3) bj]
      by (simp add: nll_flat_position[OF ro(2) tg(2)] valid_position_def)
  qed
  then have sd: "sum_dim \<lparr>shape = [B, T], elems = E\<rparr> 1 = Inr \<lparr>shape = [B], elems = S\<rparr>"
    using sum_dim_rows[of "\<lparr>shape = [B, T], elems = E\<rparr>" B T] by simp
  define P where "P = map2 tdiv S (map real_of_int (elems seq_len))"
  have dv: "tbinop tdiv \<lparr>shape = [B], elems = S\<rparr> (float_of_int seq_len) = Inr \<lparr>shape = [B], elems = P\<rparr>"
    using tbinop_same_shape[of "\<lparr>shape = [B], elems = S\<rparr>" "float_of_int seq_len" tdiv] sl lens
    by (simp add: wf_tensor_def float_of_int_def tmap_def S_def P_def)
  have lenP: "length P = B" by (simp add: P_def S_def lens)
  have mn: "tbinop smin \<lparr>shape = [B], elems = P\<rparr> (tmap ((*) 100) (ones [B]))
        = Inr \<lparr>shape = [B], elems = map2 smin P (replicate B 100)\<rparr>"
    using tbinop_same_shape[of "\<lparr>shape = [B], elems = P\<rparr>" "tmap ((*) 100) (ones [B])" smin] lenP
    by (simp add: wf_tensor_def tmap_def ones_def)
  have fin: "map sexp (map2 smin P (replicate B 100))
      = map (\<lambda>b. if elems seq_len ! b = 0 then DivZero
                 else Fin (example_ppl readouts targets seq_len b)) [0..<B]"
  proof (rule nth_equalityI)
    show "length (map sexp (map2 smin P (replicate B 100)))
        = length (map (\<lambda>b. if elems seq_len ! b = 0 then DivZero
                 else Fin (example_ppl readouts targets seq_len b)) [0..<B])"
      by (simp add: lenP)
  next
    fix b assume "b < length (map sexp (map2 smin P (replicate B 100)))"
    then have b: "b < B" by (simp add: lenP)
    then have "P ! b = (if elems seq_len ! b = 0 then DivZero
        else Fin (example_loss readouts targets seq_len b))"
      using lens(3) by (simp add: P_def S_def tdiv_def example_loss_def tg(2))
    then show "map sexp (map2 smin P (replicate B 100)) ! b
        = map (\<lambda>b. if elems seq_len ! b = 0 then DivZero
                 else Fin (example_ppl readouts targets seq_len b)) [0..<B] ! b"
      using b lenP by (simp add: example_ppl_def)
  qed
  have "ppl_lst (int C) readouts targets seq_len
      = Inr (tmap sexp \<lparr>shape = [B], elems = map2 smin P (replicate B 100)\<rparr>)"
    unfolding ppl_lst_masked_losses ml
    by (simp only: ebind_def sum.case sd dv tensor.simps mn)
  then show ?thesis
    by (simp only: tmap_def tensor.simps fin)
qed

lemma ppl_lst_formula:
  assumes ro: "wf_tensor readouts" "shape readouts = [B, T, C]"
    and tg: "wf_tensor targets" "shape targets = [B, T]"
    and sl: "wf_tensor seq_len" "shape seq_len = [B]"
    and C: "0 < C"
    and rng: "\<forall>k \<in> set (elems targets). 0 \<le> k \<and> k < int C"
    and pos: "\<forall>l \<in> set (elems seq_len). 0 < l"
  shows "ppl_lst (int C) readouts targets seq_len =
           Inr \<lparr>shape = [B], elems = map (\<lambda>b. Fin (example_ppl readouts targets seq_len b)) [0..<B]\<rparr>"
proof -
  have "map (\<lambda>b. if elems seq_len ! b = 0 then DivZero
                 else Fin (example_ppl readouts targets seq_len b)) [0..<B]
      = map (\<lambda>b. Fin (example_ppl readouts targets seq_len b)) [0..<B]"
  proof (rule map_cong[OF refl])
    fix b assume "b \<in> set [0..<B]"
    then have "elems seq_len ! b \<in> set (elems seq_len)"
      using sl by (simp add: wf_tensor_def)
    then have "elems seq_len ! b \<noteq> 0" using pos by auto
    then show "(if elems seq_len ! b = 0 then DivZero else Fin (example_ppl readouts targets seq_len b))
        = Fin (example_ppl readouts targets seq_len b)"
      by simp
  qed
  then show ?thesis
    unfolding ppl_lst_general[OF ro tg sl C rng] by (simp only:)
qed

lemma tmean_fins:
  "tmean \<lparr>shape = [B], elems = map (\<lambda>b. Fin (f b)) [0..<B]\<rparr> = tdiv (\<Sum>b<B. f b) (real B)"
proof -
  have "sum_list (map the_fin (map (\<lambda>b. Fin (f b)) [0..<B])) = (\<Sum>b<B. f b)"
    by (simp add: comp_def interv_sum_list_conv_sum_set_nat lessThan_atLeast0)
  moreover have "DivZero \<notin> set (map (\<lambda>b. Fin (f b)) [0..<B])" by auto
  ultimately show ?thesis
    by (simp add: tmean_def numel_def del: set_map map_map)
qed

lemma compute_ppl_formula:
  assumes "wf_tensor readouts" "shape readouts = [B, T, C]"
    and "wf_tensor targets" "shape targets = [B, T]"
    and "wf_tensor seq_len" "shape seq_len = [B]"
    and "0 < C"
    and "\<forall>k \<in> set (elems targets). 0 \<le> k \<and> k < int C"
    and "\<forall>l \<in> set (elems seq_len). 0 < l"
  shows "compute_ppl (int C) readouts targets seq_len = Inr (mean_ppl readouts targets seq_len)"
  unfolding compute_ppl_def ppl_lst_formula[OF assms]
  by (simp add: ebind_def tmean_fins mean_ppl_def assms(4))

text \<open>
  Claim C3. For a batch with positive true lengths, \<open>compute_ppl\<close> takes the masked
  negative log-likelihood of every position as \<open>compute_loss\<close> does, sums it along each
  example's own positions, divides each sum by that example's own length, clamps each of
  these values above at the constant 100, exponentiates, and returns the arithmetic mean
  of the per-example perplexities over the batch (a mean over examples, not over tokens).
\<close>

theorem compute_ppl_is_mean_ppl:
  assumes "wf_tensor readouts" "shape readouts = [B, T, C]"
    and "wf_tensor targets" "shape targets = [B, T]"
    and "wf_tensor seq_len" "shape seq_len = [B]"
    and "0 < C"
    and "\<forall>k \<in> set (elems targets). 0 \<le> k \<and> k < int C"
    and "\<forall>l \<in> set (elems seq_len). 0 < l"
  shows "compute_ppl (int C) readouts targets seq_len = Inr (mean_ppl readouts targets seq_len)"
  using assms by (rule compute_ppl_formula)

theorem compute_ppl_is_mean_ppl_witness:
  "compute_ppl 2 \<lparr>shape = [2, 2, 2], elems = [0, 1, 2, 3, 4, 5, 6, 7]\<rparr>
       \<lparr>shape = [2, 2], elems = [0, 1, 1, 0]\<rparr> \<lparr>shape = [2], elems = [2, 1]\<rparr>
     = Inr (mean_ppl \<lparr>shape = [2, 2, 2], elems = [0, 1, 2, 3, 4, 5, 6, 7]\<rparr>
              \<lparr>shape = [2, 2], elems = [0, 1, 1, 0]\<rparr> \<lparr>shape = [2], elems = [2, 1]\<rparr>)"
  using compute_ppl_is_mean_ppl [of "\<lparr>shape = [2, 2, 2], elems = [0, 1, 2, 3, 4, 5, 6, 7]\<rparr>" 2 2 2
      "\<lparr>shape = [2, 2], elems = [0, 1, 1, 0]\<rparr>" "\<lparr>shape = [2], elems = [2, 1]\<rparr>"]
  by (simp add: wf_tensor_def)

lemma log_prob_le_0:
  assumes "k < shape readouts ! 2"
  shows "log_prob readouts b j k \<le> 0"
proof -
  let ?C = "shape readouts ! 2"
  have "exp (at3 readouts b j k) \<le> (\<Sum>c<?C. exp (at3 readouts b j c))"
    using assms by (intro member_le_sum) simp_all
  then have "ln (exp (at3 readouts b j k)) \<le> ln (\<Sum>c<?C. exp (at3 readouts b j c))"
    by (subst ln_le_cancel_iff) (simp_all add: less_le_trans[OF exp_gt_zero])
  then show ?thesis by (simp add: log_prob_def)
qed

lemma example_ppl_bounds:
  assumes ro: "shape readouts = [B, T, C]"
    and tg: "wf_tensor targets" "shape targets = [B, T]"
    and rng: "\<forall>k \<in> set (elems targets). 0 \<le> k \<and> k < int C"
    and b: "b < B" and pos: "0 < elems seq_len ! b"
  shows "1 \<le> example_ppl readouts targets seq_len b \<and> example_ppl readouts targets seq_len b \<le> exp 100"
proof -
  have "\<And>j. j < T \<Longrightarrow> 0 \<le> position_loss readouts targets b j"
  proof -
    fix j assume j: "j < T"
    have "nat (at2 targets b j) < C"
      using at2_in_set[OF tg b j] rng by auto
    then show "0 \<le> position_loss readouts targets b j"
      using log_prob_le_0[of "nat (at2 targets b j)" readouts b j] ro
      by (simp add: position_loss_def)
  qed
  then have "0 \<le> (\<Sum>j<T. of_bool (valid_position seq_len b j) * position_loss readouts targets b j)"
    by (intro sum_nonneg) simp
  then have "0 \<le> example_loss readouts targets seq_len b"
    using pos by (simp add: example_loss_def tg(2))
  then show ?thesis by (simp add: example_ppl_def)
qed

text \<open>
  Over the reals, the perplexity of an example of positive true length is at least 1 and
  at most \<open>exp 100\<close>. On floats this needs a condition and allows an infinity; see section
  \<open>Perplexity in the float32 range\<close>.
\<close>

lemma ppl_lst_real_bounds:
  assumes "wf_tensor readouts" "shape readouts = [B, T, C]"
    and "wf_tensor targets" "shape targets = [B, T]"
    and "wf_tensor seq_len" "shape seq_len = [B]"
    and "0 < C"
    and "\<forall>k \<in> set (elems targets). 0 \<le> k \<and> k < int C"
  shows "\<exists>t. ppl_lst (int C) readouts targets seq_len = Inr t \<and> shape t = [B] \<and>
             length (elems t) = B \<and>
             (\<forall>b<B. 0 < elems seq_len ! b \<longrightarrow>
                (\<exists>v. elems t ! b = Fin v \<and> 1 \<le> v \<and> v \<le> exp 100))"
proof -
  have "\<And>b. b < B \<Longrightarrow> 0 < elems seq_len ! b \<Longrightarrow>
      1 \<le> example_ppl readouts targets seq_len b \<and>
      example_ppl readouts targets seq_len b \<le> exp 100"
    by (rule example_ppl_bounds[OF assms(2,3,4,8)])
  then show ?thesis
    unfolding ppl_lst_general[OF assms] by simp
qed

lemma single_example_formula:
  assumes "wf_tensor readouts" "shape readouts = [1, T, C]"
    and "wf_tensor targets" "shape targets = [1, T]"
    and "wf_tensor seq_len" "shape seq_len = [1]"
    and "0 < C"
    and "\<forall>k \<in> set (elems targets). 0 \<le> k \<and> k < int C"
    and "\<forall>l \<in> set (elems seq_len). 0 < l"
  shows "\<exists>v. compute_loss readouts targets seq_len (int C) = Inr (Fin v) \<and>
             compute_ppl (int C) readouts targets seq_len = Inr (Fin (exp (min v 100)))"
proof -
  have "elems seq_len ! 0 \<in> set (elems seq_len)"
    using assms(5,6) by (simp add: wf_tensor_def)
  then have nz: "real_of_int (elems seq_len ! 0) \<noteq> 0" using assms(9) by auto
  have "compute_loss readouts targets seq_len (int C) = Inr (Fin (example_loss readouts targets seq_len 0))"
    unfolding compute_loss_formula[OF assms(1-8)]
    using nz by (simp add: masked_nll_def assms(4) tdiv_def example_loss_def)
  moreover have "compute_ppl (int C) readouts targets seq_len
      = Inr (Fin (exp (min (example_loss readouts targets seq_len 0) 100)))"
    unfolding compute_ppl_def ppl_lst_formula[OF assms]
    by (simp add: ebind_def tmean_def numel_def tdiv_def example_ppl_def)
  ultimately show ?thesis by blast
qed

lemma two_example_values:
  defines "readouts \<equiv> \<lparr>shape = [2, 1, 2], elems = [0, 0, 0, ln 3]\<rparr>"
    and "targets \<equiv> \<lparr>shape = [2, 1], elems = [0, 0]\<rparr>"
    and "seq_len \<equiv> \<lparr>shape = [2], elems = [1, 1]\<rparr>"
  shows "example_loss readouts targets seq_len 0 = ln 2"
    and "example_loss readouts targets seq_len 1 = ln 4"
  by (simp_all add: example_loss_def valid_position_def position_loss_def log_prob_def
      at2_def at3_def readouts_def targets_def seq_len_def numeral_2_eq_2)

lemma two_example_batch:
  defines "readouts \<equiv> \<lparr>shape = [2, 1, 2], elems = [0, 0, 0, ln 3]\<rparr>"
    and "targets \<equiv> \<lparr>shape = [2, 1], elems = [0, 0]\<rparr>"
    and "seq_len \<equiv> \<lparr>shape = [2], elems = [1, 1]\<rparr>"
  shows "compute_loss readouts targets seq_len 2 = Inr (Fin ((ln 2 + ln 4) / 2)) \<and>
         compute_ppl 2 readouts targets seq_len = Inr (Fin 3) \<and>
         exp (min ((ln 2 + ln 4) / 2) 100) \<noteq> (3::real)"
proof -
  have wf: "wf_tensor readouts" "shape readouts = [2, 1, 2]" "wf_tensor targets" "shape targets = [2, 1]"
    "wf_tensor seq_len" "shape seq_len = [2]" "0 < (2::nat)"
    "\<forall>k \<in> set (elems targets). 0 \<le> k \<and> k < int 2" "\<forall>l \<in> set (elems seq_len). 0 < l"
    by (simp_all add: wf_tensor_def readouts_def targets_def seq_len_def)
  note ev = two_example_values[folded readouts_def targets_def seq_len_def]
  have el: "(\<Sum>j<1. of_bool (valid_position seq_len 0 j) * position_loss readouts targets 0 j) = ln 2"
    "(\<Sum>j<1. of_bool (valid_position seq_len 1 j) * position_loss readouts targets 1 j) = ln 4"
    using ev by (simp_all add: example_loss_def wf(4) seq_len_def)
  have l: "compute_loss readouts targets seq_len 2 = Inr (Fin ((ln 2 + ln 4) / 2))"
    using compute_loss_formula[OF wf(1-8)] el
    by (simp add: masked_nll_def wf(4) numeral_2_eq_2 tdiv_def seq_len_def)
  have b4: "ln (4::real) \<le> 100" using ln_bound[of "4::real"] by simp
  have b2: "ln (2::real) \<le> 100" using ln_bound[of "2::real"] by simp
  have p: "compute_ppl 2 readouts targets seq_len = Inr (Fin 3)"
    using compute_ppl_formula[OF wf] ev b2 b4
    by (simp add: mean_ppl_def wf(4) numeral_2_eq_2 tdiv_def example_ppl_def min_def)
  have "exp (min ((ln 2 + ln 4) / 2) 100) \<noteq> (3::real)"
  proof
    assume a: "exp (min ((ln 2 + ln 4) / 2) 100) = (3::real)"
    have "min ((ln 2 + ln 4) / 2) 100 = (ln 2 + ln 4) / (2::real)"
      using b2 b4 by (simp add: min_def)
    then have "exp ((ln 2 + ln 4) / 2) = (3::real)" using a by simp
    then have "exp ((ln 2 + ln 4) / 2) * exp ((ln 2 + ln 4) / 2) = (9::real)" by simp
    then have "exp (ln 2 + ln 4) = (9::real)"
      by (simp add: exp_add[symmetric] del: exp_add)
    then show False by (simp add: exp_add)
  qed
  with l p show ?thesis by blast
qed

text \<open>
  Claim C10. For a batch of a single example with positive true length and targets in the
  class range, \<open>compute_ppl\<close> is the exponential of the minimum of \<open>compute_loss\<close> and
  100, on the same readouts, targets and length. For larger batches this fails in general:
  on the batch of two examples given in the statement the loss is \<open>(ln 2 + ln 4) / 2\<close> and
  the perplexity is 3, which is not the exponential of the clamped loss.
\<close>

theorem single_example_ppl:
  assumes "wf_tensor readouts" "shape readouts = [1, T, C]"
    and "wf_tensor targets" "shape targets = [1, T]"
    and "wf_tensor seq_len" "shape seq_len = [1]"
    and "0 < C"
    and "\<forall>k \<in> set (elems targets). 0 \<le> k \<and> k < int C"
    and "\<forall>l \<in> set (elems seq_len). 0 < l"
  shows "(\<exists>v. compute_loss readouts targets seq_len (int C) = Inr (Fin v) \<and>
              compute_ppl (int C) readouts targets seq_len = Inr (Fin (exp (min v 100)))) \<and>
         (compute_loss \<lparr>shape = [2, 1, 2], elems = [0, 0, 0, ln 3]\<rparr> \<lparr>shape = [2, 1], elems = [0, 0]\<rparr>
              \<lparr>shape = [2], elems = [1, 1]\<rparr> 2 = Inr (Fin ((ln 2 + ln 4) / 2)) \<and>
          compute_ppl 2 \<lparr>shape = [2, 1, 2], elems = [0, 0, 0, ln 3]\<rparr> \<lparr>shape = [2, 1], elems = [0, 0]\<rparr>
              \<lparr>shape = [2], elems = [1, 1]\<rparr> = Inr (Fin 3) \<and>
          exp (min ((ln 2 + ln 4) / 2) 100) \<noteq> (3::real))"
  using single_example_formula[OF assms] two_example_batch by blast

theorem single_example_ppl_witness:
  "\<exists>v. compute_loss \<lparr>shape = [1, 2, 2], elems = [0, 1, 2, 3]\<rparr> \<lparr>shape = [1, 2], elems = [0, 1]\<rparr>
         \<lparr>shape = [1], elems = [2]\<rparr> 2 = Inr (Fin v) \<and>
       compute_ppl 2 \<lparr>shape = [1, 2, 2], elems = [0, 1, 2, 3]\<rparr> \<lparr>shape = [1, 2], elems = [0, 1]\<rparr>
         \<lparr>shape = [1], elems = [2]\<rparr> = Inr (Fin (exp (min v 100)))"
  using single_example_ppl [of "\<lparr>shape = [1, 2, 2], elems = [0, 1, 2, 3]\<rparr>" 2 2
      "\<lparr>shape = [1, 2], elems = [0, 1]\<rparr>" "\<lparr>shape = [1], elems = [2]\<rparr>"]
  by (simp add: wf_tensor_def)

section \<open>Claims about the phrase-bank embedding\<close>

lemma row_at_eq_map_nth:
  assumes "length xs = r * c" "i < r"
  shows "row_at c xs i = map (\<lambda>j. xs ! (i * c + j)) [0..<c]"
  by (rule nth_equalityI) (simp_all add: length_row_at[OF assms] nth_row_at[OF assms])

lemma embedding_out_of_range:
  assumes "shape table = [V, D]" "\<not> ids_in_range V t"
  shows "ph_bank_embedded table t = Inl IndexError"
  using assms by (auto simp: ph_bank_embedded_def embedding_def ebind_def ids_in_range_def)

lemma ph_bank_embedded_formula:
  assumes tb: "wf_tensor table" "shape table = [V, D]"
    and t: "wf_tensor t" "shape t = [B, P, S]"
    and rng: "ids_in_range V t"
  shows "ph_bank_embedded table t =
           Inr \<lparr>shape = [B, P, D],
                elems = concat (map (\<lambda>i. map (\<lambda>l. \<Sum>x\<leftarrow>row_at S (elems t) i. row_at D (elems table) (nat x) ! l)
                                          [0..<D])
                                [0..<B * P])\<rparr>"
proof -
  define f where "f = (\<lambda>x. row_at D (elems table) (nat x))"
  define E where "E = concat (map f (elems t))"
  have lent: "length (elems t) = (B * P) * S" using t by (simp add: wf_tensor_def)
  have lentb: "length (elems table) = V * D" using tb by (simp add: wf_tensor_def)
  have flen: "\<forall>ys \<in> set (map f (elems t)). length ys = D"
  proof
    fix ys assume "ys \<in> set (map f (elems t))"
    then obtain x where x: "x \<in> set (elems t)" "ys = f x" by auto
    then have "nat x < V" using rng by (auto simp: ids_in_range_def)
    then show "length ys = D" using x(2) length_row_at[OF lentb] by (simp add: f_def)
  qed
  have norng: "\<not> (\<exists>i \<in> set (elems t). i < 0 \<or> int V \<le> i)"
    using rng by (auto simp: ids_in_range_def)
  have emb: "embedding table t = Inr \<lparr>shape = [B, P, S, D], elems = E\<rparr>"
    using tb(2) t(2) norng by (simp add: embedding_def E_def f_def)
  have sd: "sum_dim \<lparr>shape = [B, P, S, D], elems = E\<rparr> (- 2) =
      Inr \<lparr>shape = [B, P, D],
           elems = concat (map (\<lambda>i. map (\<lambda>l. \<Sum>j\<leftarrow>[0..<S]. E ! ((i * S + j) * D + l)) [0..<D]) [0..<B * P])\<rparr>"
    by (simp add: sum_dim_def Let_def numeral_2_eq_2)
  have "map (\<lambda>i. map (\<lambda>l. \<Sum>j\<leftarrow>[0..<S]. E ! ((i * S + j) * D + l)) [0..<D]) [0..<B * P]
      = map (\<lambda>i. map (\<lambda>l. \<Sum>x\<leftarrow>row_at S (elems t) i. f x ! l) [0..<D]) [0..<B * P]"
  proof (rule map_cong[OF refl], rule map_cong[OF refl])
    fix i l assume "i \<in> set [0..<B * P]" "l \<in> set [0..<D]"
    then have i: "i < B * P" and l: "l < D" by simp_all
    have "\<And>j. j < S \<Longrightarrow> E ! ((i * S + j) * D + l) = f (elems t ! (i * S + j)) ! l"
    proof -
      fix j assume j: "j < S"
      have "Suc i * S \<le> (B * P) * S" using i by (intro mult_le_mono1) simp
      then have lt: "i * S + j < length (elems t)" using j lent by simp
      then have "i * S + j < length (map f (elems t))" by simp
      from nth_concat_rows[OF flen this l] lt
      show "E ! ((i * S + j) * D + l) = f (elems t ! (i * S + j)) ! l"
        by (simp add: E_def)
    qed
    then have "(\<Sum>j\<leftarrow>[0..<S]. E ! ((i * S + j) * D + l)) = (\<Sum>j\<leftarrow>[0..<S]. f (elems t ! (i * S + j)) ! l)"
      by (intro arg_cong[where f=sum_list] map_cong[OF refl]) simp
    also have "\<dots> = (\<Sum>x\<leftarrow>row_at S (elems t) i. f x ! l)"
      by (simp add: row_at_eq_map_nth[OF lent i] comp_def)
    finally show "(\<Sum>j\<leftarrow>[0..<S]. E ! ((i * S + j) * D + l)) = (\<Sum>x\<leftarrow>row_at S (elems t) i. f x ! l)" .
  qed
  then have "concat (map (\<lambda>i. map (\<lambda>l. \<Sum>j\<leftarrow>[0..<S]. E ! ((i * S + j) * D + l)) [0..<D]) [0..<B * P])
      = concat (map (\<lambda>i. map (\<lambda>l. \<Sum>x\<leftarrow>row_at S (elems t) i. row_at D (elems table) (nat x) ! l) [0..<D]) [0..<B * P])"
    unfolding f_def by (rule arg_cong)
  then show ?thesis
    unfolding ph_bank_embedded_def emb ebind_def sum.case sd
    by (simp only:)
qed

lemma set_elems_rows:
  assumes "length xs = r * c"
  shows "set xs = (\<Union>i<r. set (row_at c xs i))"
proof -
  have "set xs = set (concat (map (row_at c xs) [0..<r]))"
    by (simp only: concat_row_at[OF assms])
  then show ?thesis by (auto simp: lessThan_atLeast0)
qed

lemma subtoken_order_irrelevant:
  assumes tb: "wf_tensor table" "shape table = [V, D]"
    and t: "wf_tensor t" "shape t = [B, P, S]"
    and t': "wf_tensor t'" "shape t' = [B, P, S]"
    and perm: "\<forall>i<B * P. mset (row_at S (elems t) i) = mset (row_at S (elems t') i)"
  shows "ph_bank_embedded table t = ph_bank_embedded table t'"
proof -
  have len: "length (elems t) = (B * P) * S" "length (elems t') = (B * P) * S"
    using t t' by (simp_all add: wf_tensor_def)
  have "\<And>i. i < B * P \<Longrightarrow> set (row_at S (elems t) i) = set (row_at S (elems t') i)"
    using perm mset_eq_setD by blast
  then have "set (elems t) = set (elems t')"
    by (simp add: set_elems_rows[OF len(1)] set_elems_rows[OF len(2)])
  then have rng: "ids_in_range V t = ids_in_range V t'"
    by (simp add: ids_in_range_def)
  show ?thesis
  proof (cases "ids_in_range V t")
    case False
    then show ?thesis
      using rng embedding_out_of_range[OF tb(2)] by simp
  next
    case True
    then have True': "ids_in_range V t'" using rng by simp
    have "map (\<lambda>i. map (\<lambda>l. \<Sum>x\<leftarrow>row_at S (elems t) i. row_at D (elems table) (nat x) ! l) [0..<D]) [0..<B * P]
        = map (\<lambda>i. map (\<lambda>l. \<Sum>x\<leftarrow>row_at S (elems t') i. row_at D (elems table) (nat x) ! l) [0..<D]) [0..<B * P]"
    proof (rule map_cong[OF refl], rule map_cong[OF refl])
      fix i l assume "i \<in> set [0..<B * P]" "l \<in> set [0..<D]"
      then have "mset (row_at S (elems t) i) = mset (row_at S (elems t') i)"
        using perm by simp
      then have "sum_mset (image_mset (\<lambda>x. row_at D (elems table) (nat x) ! l) (mset (row_at S (elems t) i)))
          = sum_mset (image_mset (\<lambda>x. row_at D (elems table) (nat x) ! l) (mset (row_at S (elems t') i)))"
        by simp
      then show "(\<Sum>x\<leftarrow>row_at S (elems t) i. row_at D (elems table) (nat x) ! l)
          = (\<Sum>x\<leftarrow>row_at S (elems t') i. row_at D (elems table) (nat x) ! l)"
        by (simp only: mset_map[symmetric] sum_mset_sum_list)
    qed
    then show ?thesis
      unfolding ph_bank_embedded_formula[OF tb t True] ph_bank_embedded_formula[OF tb t' True']
      by (simp only:)
  qed
qed

lemma slot_index:
  fixes P :: nat
  assumes "bij_betw \<pi> {..<P} {..<P}" "i < B * P"
  shows "(i div P) * P + \<pi> (i mod P) < B * P"
proof -
  have P: "0 < P" using assms(2) by (cases P) simp_all
  then have "\<pi> (i mod P) \<in> {..<P}"
    using bij_betwE[OF assms(1)] by simp
  then have "\<pi> (i mod P) < P" by simp
  moreover have "i div P < B"
    using assms(2) P by (simp add: less_mult_imp_div_less)
  then have "Suc (i div P) * P \<le> B * P" by (intro mult_le_mono1) simp
  ultimately show ?thesis by simp
qed

lemma slot_index_surj:
  fixes P :: nat
  assumes "bij_betw \<pi> {..<P} {..<P}" "k < B * P"
  shows "\<exists>i<B * P. (i div P) * P + \<pi> (i mod P) = k"
proof -
  have P: "0 < P" using assms(2) by (cases P) simp_all
  have "k mod P \<in> {..<P}" using P by simp
  then obtain q where q: "q < P" "\<pi> q = k mod P"
    using assms(1) unfolding bij_betw_def by (metis imageE lessThan_iff)
  let ?i = "(k div P) * P + q"
  have kd: "k div P < B" using assms(2) P by (simp add: less_mult_imp_div_less)
  then have "Suc (k div P) * P \<le> B * P" by (intro mult_le_mono1) simp
  then have "?i < B * P" using q(1) by simp
  moreover have "?i div P = k div P" "?i mod P = q" using q(1) by simp_all
  then have "(?i div P) * P + \<pi> (?i mod P) = k" using q(2) by simp
  ultimately show ?thesis by blast
qed

lemma length_concat_rows:
  "\<forall>xs \<in> set xss. length xs = c \<Longrightarrow> length (concat xss) = length xss * c"
  by (induction xss) auto

lemma permute_slots_rows:
  assumes "shape t = [B, P, W]" "length (elems t) = (B * P) * W" "bij_betw \<pi> {..<P} {..<P}"
  shows "length (elems (permute_slots \<pi> t)) = (B * P) * W"
    and "\<And>i. i < B * P \<Longrightarrow> row_at W (elems (permute_slots \<pi> t)) i
            = row_at W (elems t) ((i div P) * P + \<pi> (i mod P))"
    and "set (elems (permute_slots \<pi> t)) = set (elems t)"
proof -
  let ?rows = "map (\<lambda>i. row_at W (elems t) ((i div P) * P + \<pi> (i mod P))) [0..<B * P]"
  have el: "elems (permute_slots \<pi> t) = concat ?rows"
    using assms(1) by (simp add: permute_slots_def)
  have rl: "\<forall>ys \<in> set ?rows. length ys = W"
    using length_row_at[OF assms(2) slot_index[OF assms(3)]] by auto
  show len: "length (elems (permute_slots \<pi> t)) = (B * P) * W"
    using length_concat_rows[OF rl] by (simp add: el)
  show rows: "\<And>i. i < B * P \<Longrightarrow> row_at W (elems (permute_slots \<pi> t)) i
            = row_at W (elems t) ((i div P) * P + \<pi> (i mod P))"
    using row_at_concat[OF rl] by (simp add: el)
  have "(\<Union>i<B * P. set (row_at W (elems t) ((i div P) * P + \<pi> (i mod P))))
      = (\<Union>k<B * P. set (row_at W (elems t) k))"
  proof (intro equalityI subsetI)
    fix x assume "x \<in> (\<Union>i<B * P. set (row_at W (elems t) ((i div P) * P + \<pi> (i mod P))))"
    then show "x \<in> (\<Union>k<B * P. set (row_at W (elems t) k))"
      using slot_index[OF assms(3)] by auto
  next
    fix x assume "x \<in> (\<Union>k<B * P. set (row_at W (elems t) k))"
    then obtain k where k: "k < B * P" "x \<in> set (row_at W (elems t) k)" by auto
    from slot_index_surj[OF assms(3) k(1)] obtain i where
      "i < B * P" "(i div P) * P + \<pi> (i mod P) = k" by blast
    then show "x \<in> (\<Union>i<B * P. set (row_at W (elems t) ((i div P) * P + \<pi> (i mod P))))"
      using k(2) by auto
  qed
  then show "set (elems (permute_slots \<pi> t)) = set (elems t)"
    using rows by (simp add: set_elems_rows[OF len] set_elems_rows[OF assms(2)])
qed

lemma slot_order_matters:
  assumes tb: "wf_tensor table" "shape table = [V, D]"
    and t: "wf_tensor t" "shape t = [B, P, S]"
    and bij: "bij_betw \<pi> {..<P} {..<P}"
  shows "ph_bank_embedded table (permute_slots \<pi> t)
           = map_sum id (permute_slots \<pi>) (ph_bank_embedded table t)"
proof -
  have len: "length (elems t) = (B * P) * S" using t by (simp add: wf_tensor_def)
  note pr = permute_slots_rows[OF t(2) len bij]
  have sh: "shape (permute_slots \<pi> t) = [B, P, S]" using t(2) by (simp add: permute_slots_def)
  have wf': "wf_tensor (permute_slots \<pi> t)" using pr(1) sh by (simp add: wf_tensor_def)
  have rng: "ids_in_range V (permute_slots \<pi> t) = ids_in_range V t"
    by (simp add: ids_in_range_def pr(3))
  show ?thesis
  proof (cases "ids_in_range V t")
    case False
    then show ?thesis
      using rng embedding_out_of_range[OF tb(2)] by simp
  next
    case True
    then have True': "ids_in_range V (permute_slots \<pi> t)" using rng by simp
    define h where "h = (\<lambda>i. map (\<lambda>l. \<Sum>x\<leftarrow>row_at S (elems t) i. row_at D (elems table) (nat x) ! l) [0..<D])"
    define out where "out = \<lparr>shape = [B, P, D], elems = concat (map h [0..<B * P])\<rparr>"
    have o: "ph_bank_embedded table t = Inr out"
      unfolding ph_bank_embedded_formula[OF tb t True] out_def h_def ..
    have hl: "\<forall>ys \<in> set (map h [0..<B * P]). length ys = D" by (auto simp: h_def)
    have olen: "length (elems out) = (B * P) * D"
      using length_concat_rows[OF hl] by (simp add: out_def)
    have "map (\<lambda>i. map (\<lambda>l. \<Sum>x\<leftarrow>row_at S (elems (permute_slots \<pi> t)) i. row_at D (elems table) (nat x) ! l) [0..<D]) [0..<B * P]
        = map (\<lambda>i. row_at D (elems out) ((i div P) * P + \<pi> (i mod P))) [0..<B * P]"
    proof (rule map_cong[OF refl])
      fix i assume "i \<in> set [0..<B * P]"
      then have i: "i < B * P" by simp
      have "row_at D (elems out) ((i div P) * P + \<pi> (i mod P)) = h ((i div P) * P + \<pi> (i mod P))"
        using row_at_concat[OF hl, of "(i div P) * P + \<pi> (i mod P)"] slot_index[OF bij i]
        by (simp add: out_def)
      then show "map (\<lambda>l. \<Sum>x\<leftarrow>row_at S (elems (permute_slots \<pi> t)) i. row_at D (elems table) (nat x) ! l) [0..<D]
          = row_at D (elems out) ((i div P) * P + \<pi> (i mod P))"
        by (simp add: pr(2)[OF i] h_def)
    qed
    moreover have "permute_slots \<pi> out = \<lparr>shape = [B, P, D],
        elems = concat (map (\<lambda>i. row_at D (elems out) ((i div P) * P + \<pi> (i mod P))) [0..<B * P])\<rparr>"
      by (simp add: permute_slots_def out_def)
    ultimately have "ph_bank_embedded table (permute_slots \<pi> t) = Inr (permute_slots \<pi> out)"
      unfolding ph_bank_embedded_formula[OF tb wf' sh True']
      by (simp only:)
    then show ?thesis by (simp add: o)
  qed
qed

lemma swap_bij: "bij_betw (\<lambda>p. 1 - p) {..<2::nat} {..<2}"
  by (rule bij_betw_byWitness[where f'="\<lambda>p. 1 - p"]) auto

lemma slot_swap_example:
  "ph_bank_embedded \<lparr>shape = [2, 1], elems = [1, 2]\<rparr> \<lparr>shape = [1, 2, 1], elems = [0, 1]\<rparr>
     = Inr \<lparr>shape = [1, 2, 1], elems = [1, 2]\<rparr>"
  "ph_bank_embedded \<lparr>shape = [2, 1], elems = [1, 2]\<rparr>
       (permute_slots (\<lambda>p. 1 - p) \<lparr>shape = [1, 2, 1], elems = [0, 1]\<rparr>)
     = Inr \<lparr>shape = [1, 2, 1], elems = [2, 1]\<rparr>"
  by (simp_all add: ph_bank_embedded_def embedding_def ebind_def sum_dim_def Let_def
      permute_slots_def row_at_def numeral_2_eq_2)

text \<open>
  Claim C9. The phrase-bank aggregation of \<open>forward\<close> (embed the sub-token ids of every
  phrase, then sum along the sub-token axis) gives the same result for two banks whose
  phrases hold the same sub-tokens in any order. It is not invariant under a permutation
  of the phrase slots: permuting the slots permutes the rows of the result in the same
  way, and on the bank given in the statement swapping the two slots changes the result.
\<close>

theorem ph_bank_aggregation:
  assumes "wf_tensor table" "shape table = [V, D]"
    and "wf_tensor t" "shape t = [B, P, S]"
    and "wf_tensor t'" "shape t' = [B, P, S]"
    and "\<forall>i<B * P. mset (row_at S (elems t) i) = mset (row_at S (elems t') i)"
    and "bij_betw \<pi> {..<P} {..<P}"
  shows "ph_bank_embedded table t = ph_bank_embedded table t' \<and>
         ph_bank_embedded table (permute_slots \<pi> t)
           = map_sum id (permute_slots \<pi>) (ph_bank_embedded table t) \<and>
         (bij_betw (\<lambda>p. 1 - p) {..<2::nat} {..<2} \<and>
          ph_bank_embedded \<lparr>shape = [2, 1], elems = [1, 2]\<rparr>
              (permute_slots (\<lambda>p. 1 - p) \<lparr>shape = [1, 2, 1], elems = [0, 1]\<rparr>)
            \<noteq> ph_bank_embedded \<lparr>shape = [2, 1], elems = [1, 2]\<rparr> \<lparr>shape = [1, 2, 1], elems = [0, 1]\<rparr>)"
proof -
  have "ph_bank_embedded \<lparr>shape = [2, 1], elems = [1, 2]\<rparr>
              (permute_slots (\<lambda>p. 1 - p) \<lparr>shape = [1, 2, 1], elems = [0, 1]\<rparr>)
            \<noteq> ph_bank_embedded \<lparr>shape = [2, 1], elems = [1, 2]\<rparr> \<lparr>shape = [1, 2, 1], elems = [0, 1]\<rparr>"
    unfolding slot_swap_example by simp
  then show ?thesis
    using subtoken_order_irrelevant[OF assms(1-7)] slot_order_matters[OF assms(1-4) assms(8)] swap_bij
    by blast
qed

theorem ph_bank_aggregation_witness:
  "ph_bank_embedded \<lparr>shape = [3, 2], elems = [0, 0, 1, 2, 10, 20]\<rparr> \<lparr>shape = [1, 2, 2], elems = [0, 1, 1, 2]\<rparr>
     = ph_bank_embedded \<lparr>shape = [3, 2], elems = [0, 0, 1, 2, 10, 20]\<rparr> \<lparr>shape = [1, 2, 2], elems = [1, 0, 2, 1]\<rparr> \<and>
   ph_bank_embedded \<lparr>shape = [3, 2], elems = [0, 0, 1, 2, 10, 20]\<rparr>
       (permute_slots (\<lambda>p. 1 - p) \<lparr>shape = [1, 2, 2], elems = [0, 1, 1, 2]\<rparr>)
     = map_sum id (permute_slots (\<lambda>p. 1 - p))
         (ph_bank_embedded \<lparr>shape = [3, 2], elems = [0, 0, 1, 2, 10, 20]\<rparr> \<lparr>shape = [1, 2, 2], elems = [0, 1, 1, 2]\<rparr>)"
  using ph_bank_aggregation [of "\<lparr>shape = [3, 2], elems = [0, 0, 1, 2, 10, 20]\<rparr>" 3 2
      "\<lparr>shape = [1, 2, 2], elems = [0, 1, 1, 2]\<rparr>" 1 2 2
      "\<lparr>shape = [1, 2, 2], elems = [1, 0, 2, 1]\<rparr>" "\<lambda>p. 1 - p"] swap_bij
  by (simp add: wf_tensor_def row_at_def less_Suc_eq numeral_2_eq_2)

section \<open>Claims about the checkpoint reconstruction\<close>

lemma map_of_the_in_set:
  assumes "k \<in> set (map fst sd)"
  shows "\<exists>t. map_of sd k = Some t \<and> t \<in> snd ` set sd"
proof -
  from assms obtain t where "map_of sd k = Some t"
    by (metis map_of_eq_None_iff not_None_eq set_map)
  then show ?thesis using map_of_SomeD by (metis imageI snd_conv)
qed

lemma load_state_dict_Inr:
  assumes "load_state_dict h c sd = Inr (c', h')"
  shows "section_fits sd (state_dict_of h c)"
    and "table_ref c' = table_ref c"
    and "table_key c' = table_key c"
    and "params c' = map (\<lambda>(k, t). (k, the (map_of sd k))) (params c)"
    and "next_addr h' = next_addr h"
  using assms
  by (auto simp: load_state_dict_def split: if_splits option.splits)

lemma load_state_dict_table:
  assumes "load_state_dict h c sd = Inr (c', h')" "tables h r = Some t"
  shows "\<exists>t'. tables h' r = Some t' \<and> num_embeddings t' = num_embeddings t \<and>
           embedding_dim t' = embedding_dim t \<and> shape (weight t') = shape (weight t) \<and>
           (weight t' = weight t \<or> weight t' \<in> snd ` set sd)"
proof (cases "table_key c")
  case None
  then show ?thesis using assms by (auto simp: load_state_dict_def split: if_splits)
next
  case (Some k)
  show ?thesis
  proof (cases "r = table_ref c")
    case False
    then show ?thesis using assms Some
      by (auto simp: load_state_dict_def split: if_splits option.splits)
  next
    case True
    have fits: "section_fits sd (state_dict_of h c)"
      using load_state_dict_Inr(1)[OF assms(1)] .
    have mem: "(k, weight t) \<in> set (state_dict_of h c)"
      using Some True assms(2) by (simp add: state_dict_of_def)
    then have sh: "shape (the (map_of sd k)) = shape (weight t)"
      using fits by (auto simp: section_fits_def)
    have "k \<in> set (map fst sd)"
      using fits mem by (force simp: section_fits_def)
    then obtain t'' where "map_of sd k = Some t''" "t'' \<in> snd ` set sd"
      using map_of_the_in_set[of k sd] by blast
    then have "the (map_of sd k) \<in> snd ` set sd" by simp
    moreover have "h' = h\<lparr>tables := (tables h)(table_ref c \<mapsto> t\<lparr>weight := the (map_of sd k)\<rparr>)\<rparr>"
      using assms Some True fits by (simp add: load_state_dict_def)
    then have "tables h' r = Some (t\<lparr>weight := the (map_of sd k)\<rparr>)"
      using True by simp
    ultimately show ?thesis using sh by simp
  qed
qed

lemma load_state_dict_holds:
  assumes "load_state_dict h (new_component bp r) sd = Inr (c', h')"
    and "tables h r = Some t" and "shape (weight t) = [V, D]"
  shows "holds_section c' bp V D sd"
proof -
  let ?c = "new_component bp r"
  note l = load_state_dict_Inr[OF assms(1)]
  have cur: "map fst (state_dict_of h ?c) = map fst (snd bp) @ (case fst bp of None \<Rightarrow> [] | Some k \<Rightarrow> [k])"
    using assms(2) by (simp add: state_dict_of_def new_component_def split: option.splits)
  have keys: "set (map fst sd) = set (map fst (snd bp)) \<union> set_option (fst bp)"
    using l(1) unfolding section_fits_def cur by (auto split: option.splits)
  have fit: "\<And>k t0. (k, t0) \<in> set (state_dict_of h ?c) \<Longrightarrow> \<exists>t'. map_of sd k = Some t' \<and> shape t' = shape t0"
  proof -
    fix k t0 assume kt: "(k, t0) \<in> set (state_dict_of h ?c)"
    then have sh: "shape (the (map_of sd k)) = shape t0"
      using l(1) by (auto simp: section_fits_def)
    have "k \<in> set (map fst (state_dict_of h ?c))" using kt by force
    then have "k \<in> set (map fst sd)" using l(1) by (simp add: section_fits_def)
    then obtain t' where "map_of sd k = Some t'" using map_of_the_in_set[of k sd] by blast
    then show "\<exists>t'. map_of sd k = Some t' \<and> shape t' = shape t0" using sh by simp
  qed
  have own: "\<forall>(k, t) \<in> set (snd bp). \<exists>t'. map_of sd k = Some t' \<and> shape t' = shape t"
  proof (clarify)
    fix k t0 assume "(k, t0) \<in> set (snd bp)"
    then have "(k, t0) \<in> set (state_dict_of h ?c)"
      by (simp add: state_dict_of_def new_component_def)
    then show "\<exists>t'. map_of sd k = Some t' \<and> shape t' = shape t0" by (rule fit)
  qed
  have tab: "\<forall>k \<in> set_option (fst bp). \<exists>t'. map_of sd k = Some t' \<and> shape t' = [V, D]"
  proof
    fix k assume "k \<in> set_option (fst bp)"
    then have "fst bp = Some k" by (cases "fst bp") simp_all
    then have "(k, weight t) \<in> set (state_dict_of h ?c)"
      using assms(2) by (simp add: state_dict_of_def new_component_def)
    from fit[OF this] show "\<exists>t'. map_of sd k = Some t' \<and> shape t' = [V, D]"
      using assms(3) by simp
  qed
  show ?thesis
    unfolding holds_section_def
    using l(3,4) keys own tab by (simp add: new_component_def)
qed

lemma dict_get_in_set: "dict_get d k = Inr v \<Longrightarrow> (k, v) \<in> set d"
  by (auto simp: dict_get_def split: option.splits dest: map_of_SomeD)

lemma from_pretrained_Inr:
  assumes "from_pretrained w = Inr e"
  shows "e = \<lparr>weight = w, num_embeddings = shape w ! 0, embedding_dim = shape w ! 1\<rparr>"
    and "shape w = [shape w ! 0, shape w ! 1]"
proof -
  have len: "length (shape w) = 2" using assms by (simp add: from_pretrained_def split: if_splits)
  show "e = \<lparr>weight = w, num_embeddings = shape w ! 0, embedding_dim = shape w ! 1\<rparr>"
    using assms by (simp add: from_pretrained_def split: if_splits)
  show "shape w = [shape w ! 0, shape w ! 1]"
    using len by (intro nth_equalityI) (auto simp: less_Suc_eq numeral_2_eq_2)
qed

lemma load_from_checkpoint_steps:
  assumes "load_from_checkpoint arch h ckpt = Inr (model, h')"
  shows "\<exists>enc_sd sp_sd wd_sd w e e' s' d' h2 h3.
           dict_get ckpt ''encoder'' = Inr enc_sd \<and>
           dict_get ckpt ''sp_decoder'' = Inr sp_sd \<and>
           dict_get ckpt ''wd_decoder'' = Inr wd_sd \<and>
           dict_get enc_sd ''embedding.weight'' = Inr w \<and>
           from_pretrained w = Inr e \<and>
           load_state_dict (snd (new_table e h))
             (enc (candela_init arch (next_addr h) (embedding_dim e) (num_embeddings e))) enc_sd = Inr (e', h2) \<and>
           load_state_dict h2
             (sp_dec (candela_init arch (next_addr h) (embedding_dim e) (num_embeddings e))) sp_sd = Inr (s', h3) \<and>
           load_state_dict h3
             (wd_dec (candela_init arch (next_addr h) (embedding_dim e) (num_embeddings e))) wd_sd = Inr (d', h') \<and>
           model = (candela_init arch (next_addr h) (embedding_dim e) (num_embeddings e))
                     \<lparr>enc := e', sp_dec := s', wd_dec := d'\<rparr>"
  using assms
  unfolding load_from_checkpoint_def ebind_def
  by (simp add: new_table_def Let_def split: sum.splits prod.splits)

lemma example_load_succeeds:
  "\<exists>model h'. load_from_checkpoint example_architecture \<lparr>tables = Map.empty, next_addr = 0\<rparr> example_checkpoint
      = Inr (model, h')"
  by (simp add: load_from_checkpoint_def ebind_def dict_get_def example_checkpoint_def
      example_architecture_def from_pretrained_def new_table_def candela_init_def new_component_def
      load_state_dict_def section_fits_def state_dict_of_def Let_def insert_commute)

lemma mismatched_load_raises:
  "load_from_checkpoint example_architecture \<lparr>tables = Map.empty, next_addr = 0\<rparr>
       mismatched_checkpoint = Inl RuntimeError"
  by (simp add: load_from_checkpoint_def ebind_def dict_get_def mismatched_checkpoint_def
      example_architecture_def from_pretrained_def new_table_def candela_init_def new_component_def
      load_state_dict_def section_fits_def state_dict_of_def Let_def insert_commute)

text \<open>
  Claim C6. Whenever \<open>load_from_checkpoint\<close> returns a model, the checkpoint has an
  encoder, a sentence-planner and a word-decoder section; the embedding table was built
  from the encoder section's \<^verbatim>\<open>embedding.weight\<close> entry, a tensor of some shape \<open>[V, D]\<close>;
  the vocabulary size \<open>V\<close> and the embedding dimension \<open>D\<close> of the model are read off
  that shape; the three sub-components are constructed with these sizes and all refer to
  the one new table object; and each sub-component holds its own section, whose keys and
  shapes agree with the freshly constructed sub-component. So a section whose keys or
  shapes disagree makes the load end in an error instead of returning a model.
\<close>

theorem load_from_checkpoint_rebuilds:
  assumes "load_from_checkpoint arch h ckpt = Inr (model, h')"
  shows "\<exists>enc_sd sp_sd wd_sd w V D tbl.
           dict_get ckpt ''encoder'' = Inr enc_sd \<and>
           dict_get ckpt ''sp_decoder'' = Inr sp_sd \<and>
           dict_get ckpt ''wd_decoder'' = Inr wd_sd \<and>
           dict_get enc_sd ''embedding.weight'' = Inr w \<and> shape w = [V, D] \<and>
           from_pretrained w = Inr \<lparr>weight = w, num_embeddings = V, embedding_dim = D\<rparr> \<and>
           word_vocab_size model = V \<and>
           table_ref (enc model) = next_addr h \<and> table_ref (sp_dec model) = next_addr h \<and>
           table_ref (wd_dec model) = next_addr h \<and>
           tables h' (next_addr h) = Some tbl \<and> num_embeddings tbl = V \<and> embedding_dim tbl = D \<and>
           shape (weight tbl) = [V, D] \<and>
           weight tbl \<in> snd ` (set enc_sd \<union> set sp_sd \<union> set wd_sd) \<and>
           holds_section (enc model) (EncoderRNN arch D 512) V D enc_sd \<and>
           holds_section (sp_dec model) (SentencePlanner arch 512 D) V D sp_sd \<and>
           holds_section (wd_dec model) (WordDecoder arch 512 D V) V D wd_sd"
proof -
  from load_from_checkpoint_steps[OF assms] obtain enc_sd sp_sd wd_sd w e e' s' d' h2 h3 where
    g: "dict_get ckpt ''encoder'' = Inr enc_sd" "dict_get ckpt ''sp_decoder'' = Inr sp_sd"
       "dict_get ckpt ''wd_decoder'' = Inr wd_sd" "dict_get enc_sd ''embedding.weight'' = Inr w"
    and fp: "from_pretrained w = Inr e"
    and l1: "load_state_dict (snd (new_table e h))
             (enc (candela_init arch (next_addr h) (embedding_dim e) (num_embeddings e))) enc_sd = Inr (e', h2)"
    and l2: "load_state_dict h2
             (sp_dec (candela_init arch (next_addr h) (embedding_dim e) (num_embeddings e))) sp_sd = Inr (s', h3)"
    and l3: "load_state_dict h3
             (wd_dec (candela_init arch (next_addr h) (embedding_dim e) (num_embeddings e))) wd_sd = Inr (d', h')"
    and m: "model = (candela_init arch (next_addr h) (embedding_dim e) (num_embeddings e))
                     \<lparr>enc := e', sp_dec := s', wd_dec := d'\<rparr>"
    by blast
  define V where "V = shape w ! 0"
  define D where "D = shape w ! 1"
  note e = from_pretrained_Inr[OF fp, folded V_def D_def]
  have ed: "embedding_dim e = D" "num_embeddings e = V" "weight e = w" by (simp_all add: e(1))
  have c: "enc (candela_init arch (next_addr h) D V) = new_component (EncoderRNN arch D 512) (next_addr h)"
    "sp_dec (candela_init arch (next_addr h) D V) = new_component (SentencePlanner arch 512 D) (next_addr h)"
    "wd_dec (candela_init arch (next_addr h) D V) = new_component (WordDecoder arch 512 D V) (next_addr h)"
    by (simp_all add: candela_init_def)
  have t1: "tables (snd (new_table e h)) (next_addr h) = Some e" by (simp add: new_table_def)
  have win: "w \<in> snd ` set enc_sd" using dict_get_in_set[OF g(4)] by force
  have sh1: "shape (weight e) = [V, D]" using ed e(2) by simp
  from load_state_dict_table[OF l1 t1] obtain tb2 where
    r2: "tables h2 (next_addr h) = Some tb2" "num_embeddings tb2 = num_embeddings e"
      "embedding_dim tb2 = embedding_dim e" "shape (weight tb2) = shape (weight e)"
      "weight tb2 = weight e \<or> weight tb2 \<in> snd ` set enc_sd"
    by blast
  have t2: "num_embeddings tb2 = V" "embedding_dim tb2 = D" "shape (weight tb2) = [V, D]"
    using r2(2,3,4) ed sh1 by simp_all
  have w2: "weight tb2 \<in> snd ` set enc_sd"
    using r2(5) win unfolding ed(3) by blast
  from load_state_dict_table[OF l2 r2(1)] obtain tb3 where
    r3: "tables h3 (next_addr h) = Some tb3" "num_embeddings tb3 = num_embeddings tb2"
      "embedding_dim tb3 = embedding_dim tb2" "shape (weight tb3) = shape (weight tb2)"
      "weight tb3 = weight tb2 \<or> weight tb3 \<in> snd ` set sp_sd"
    by blast
  have t3: "num_embeddings tb3 = V" "embedding_dim tb3 = D" "shape (weight tb3) = [V, D]"
    using r3(2,3,4) t2 by simp_all
  have w3: "weight tb3 \<in> snd ` set enc_sd \<union> snd ` set sp_sd"
  proof (cases "weight tb3 = weight tb2")
    case True then show ?thesis using w2 by simp
  next
    case False then show ?thesis using r3(5) by simp
  qed
  from load_state_dict_table[OF l3 r3(1)] obtain tb4 where
    r4: "tables h' (next_addr h) = Some tb4" "num_embeddings tb4 = num_embeddings tb3"
      "embedding_dim tb4 = embedding_dim tb3" "shape (weight tb4) = shape (weight tb3)"
      "weight tb4 = weight tb3 \<or> weight tb4 \<in> snd ` set wd_sd"
    by blast
  have t4: "tables h' (next_addr h) = Some tb4" "num_embeddings tb4 = V" "embedding_dim tb4 = D"
      "shape (weight tb4) = [V, D]"
    using r4(1,2,3,4) t3 by simp_all
  have "weight tb4 \<in> snd ` set enc_sd \<union> snd ` set sp_sd \<union> snd ` set wd_sd"
  proof (cases "weight tb4 = weight tb3")
    case True then show ?thesis using w3 by simp
  next
    case False then show ?thesis using r4(5) by simp
  qed
  then have w4: "weight tb4 \<in> snd ` (set enc_sd \<union> set sp_sd \<union> set wd_sd)"
    by (simp only: image_Un)
  have hs: "holds_section e' (EncoderRNN arch D 512) V D enc_sd"
    "holds_section s' (SentencePlanner arch 512 D) V D sp_sd"
    "holds_section d' (WordDecoder arch 512 D V) V D wd_sd"
    using load_state_dict_holds[OF l1[unfolded ed c] t1 sh1]
      load_state_dict_holds[OF l2[unfolded ed c] r2(1) t2(3)]
      load_state_dict_holds[OF l3[unfolded ed c] r3(1) t3(3)]
    by simp_all
  have refs: "table_ref e' = next_addr h" "table_ref s' = next_addr h" "table_ref d' = next_addr h"
    using load_state_dict_Inr(2)[OF l1] load_state_dict_Inr(2)[OF l2] load_state_dict_Inr(2)[OF l3]
    by (simp_all add: ed c new_component_def)
  have mv: "word_vocab_size model = V" "enc model = e'" "sp_dec model = s'" "wd_dec model = d'"
    by (simp_all add: m ed candela_init_def)
  have fpw: "from_pretrained w = Inr \<lparr>weight = w, num_embeddings = V, embedding_dim = D\<rparr>"
    using fp e(1) by simp
  show ?thesis
    using g e(2) fpw mv refs t4 w4 hs by (intro exI[of _ enc_sd] exI[of _ sp_sd] exI[of _ wd_sd]
        exI[of _ w] exI[of _ V] exI[of _ D] exI[of _ tb4]) simp
qed

theorem load_from_checkpoint_rebuilds_witness:
  "(\<exists>model h'. load_from_checkpoint example_architecture \<lparr>tables = Map.empty, next_addr = 0\<rparr>
         example_checkpoint = Inr (model, h') \<and>
       word_vocab_size model = 3 \<and>
       table_ref (enc model) = 0 \<and> table_ref (sp_dec model) = 0 \<and> table_ref (wd_dec model) = 0) \<and>
   load_from_checkpoint example_architecture \<lparr>tables = Map.empty, next_addr = 0\<rparr>
       mismatched_checkpoint = Inl RuntimeError"
proof -
  obtain model h' where l: "load_from_checkpoint example_architecture \<lparr>tables = Map.empty, next_addr = 0\<rparr>
      example_checkpoint = Inr (model, h')"
    using example_load_succeeds by blast
  from load_from_checkpoint_rebuilds[OF l] obtain enc_sd w V D where
    f: "dict_get example_checkpoint ''encoder'' = Inr enc_sd"
      "dict_get enc_sd ''embedding.weight'' = Inr w" "shape w = [V, D]"
      "word_vocab_size model = V"
      "table_ref (enc model) = 0" "table_ref (sp_dec model) = 0" "table_ref (wd_dec model) = 0"
    by auto
  have "enc_sd = [(''embedding.weight'', \<lparr>shape = [3, 2], elems = [1, 2, 3, 4, 5, 6]\<rparr>),
                     (''rnn.w'', \<lparr>shape = [1, 2], elems = [7, 8]\<rparr>)]"
    using f(1) by (simp add: dict_get_def example_checkpoint_def)
  then have "w = \<lparr>shape = [3, 2], elems = [1, 2, 3, 4, 5, 6]\<rparr>"
    using f(2) by (simp add: dict_get_def)
  then have "V = 3" using f(3) by simp
  then have "\<exists>model h'. load_from_checkpoint example_architecture \<lparr>tables = Map.empty, next_addr = 0\<rparr>
         example_checkpoint = Inr (model, h') \<and>
       word_vocab_size model = 3 \<and>
       table_ref (enc model) = 0 \<and> table_ref (sp_dec model) = 0 \<and> table_ref (wd_dec model) = 0"
    using l f by blast
  then show ?thesis using mismatched_load_raises by blast
qed

section \<open>Padding in the float32 range\<close>

lemma max_f32_pos: "0 < max_f32"
  by (simp add: max_f32_def)


lemma rnd_zero: "rnd 0 = Num 0"
  using max_f32_pos by (simp add: rnd_def)

lemma rnd_NumD: "rnd r = Num v \<Longrightarrow> v = r \<and> - max_f32 \<le> r \<and> r \<le> max_f32"
  by (auto simp: rnd_def split: if_splits)

lemma rnd_not_NaN: "rnd r \<noteq> NaN"
  by (simp add: rnd_def)

lemma length_log_softmax_row_f32: "length (log_softmax_row_f32 xs) = length xs"
  by (simp add: log_softmax_row_f32_def Let_def)

lemma compute_loss_f32_masked_losses:
  "compute_loss_f32 readouts targets seq_len type_cnt =
     ebind (masked_losses_f32 readouts targets seq_len type_cnt)
       (\<lambda>losses. Inr (fdiv (fsum (elems losses)) (fsum (elems (f32_of_int seq_len)))))"
  by (simp add: compute_loss_f32_def masked_losses_f32_def ebind_def Let_def split: sum.splits)


lemma log_softmax_f32_row_at:
  assumes "shape t = [r, c]" "length (elems t) = r * c" "i < r"
  shows "row_at c (elems (log_softmax_f32 t)) i = log_softmax_row_f32 (row_at c (elems t) i)"
proof -
  have "\<forall>ys \<in> set (map log_softmax_row_f32 (rows_of t)). length ys = c"
    using assms(1) length_row_at[OF assms(2)]
    by (auto simp: rows_of_def length_log_softmax_row_f32)
  moreover have "i < length (map log_softmax_row_f32 (rows_of t))"
    using assms(1,3) by (simp add: rows_of_def)
  ultimately have "row_at c (concat (map log_softmax_row_f32 (rows_of t))) i
      = map log_softmax_row_f32 (rows_of t) ! i"
    by (rule row_at_concat)
  then show ?thesis using assms(1,3) by (simp add: log_softmax_f32_def rows_of_def)
qed

lemma masked_losses_f32_eq:
  assumes ro: "wf_tensor readouts" "shape readouts = [B, T, C]" and C: "0 < C"
    and tg: "wf_tensor targets" "shape targets = [B, T]"
    and sl: "wf_tensor seq_len" "shape seq_len = [B]"
    and rng: "\<forall>k \<in> set (elems targets). 0 \<le> k \<and> k < int C"
  shows "masked_losses_f32 readouts targets seq_len (int C) =
           Inr \<lparr>shape = [B, T],
                elems = concat (map (\<lambda>b. map (\<lambda>j. fmul (position_loss_f32 readouts targets b j)
                                                     (Num (of_bool (valid_position seq_len b j))))
                                          [0..<T])
                                [0..<B])\<rparr>"
proof -
  have lens: "length (elems readouts) = B * T * C" "length (elems targets) = B * T"
    "length (elems seq_len) = B"
    using ro tg sl by (simp_all add: wf_tensor_def)
  define rf where "rf = \<lparr>shape = [B * T, C], elems = elems readouts\<rparr>"
  have v1: "view_rows readouts (int C) = Inr rf"
    using lens C by (simp add: view_rows_def numel_def rf_def)
  define tf where "tf = \<lparr>shape = [B * T, 1], elems = elems targets\<rparr>"
  have v2: "view_rows targets 1 = Inr tf"
    using lens by (simp add: view_rows_def numel_def tf_def)
  define nl where "nl = (\<lambda>i. fneg (log_softmax_row_f32 (row_at C (elems readouts) i) ! nat (elems targets ! i)))"
  define g where "g = \<lparr>shape = [B * T, 1],
      elems = map (\<lambda>i. row_at C (elems (log_softmax_f32 rf)) i ! nat (elems targets ! i)) [0..<B * T]\<rparr>"
  have norng: "\<not> (\<exists>j \<in> set (elems targets). j < 0 \<or> int C \<le> j)"
    using rng by auto
  have v3: "gather (log_softmax_f32 rf) tf = Inr g"
    using norng by (simp add: gather_def log_softmax_f32_def rf_def tf_def g_def)
  have gel: "map fneg (elems g) = map nl [0..<B * T]"
  proof -
    have "\<And>i. i < B * T \<Longrightarrow> row_at C (elems (log_softmax_f32 rf)) i
        = log_softmax_row_f32 (row_at C (elems readouts) i)"
      using log_softmax_f32_row_at[of rf "B * T" C] lens(1) by (simp add: rf_def)
    then show ?thesis by (simp add: g_def nl_def)
  qed
  define ls where "ls = \<lparr>shape = [B, T], elems = map nl [0..<B * T]\<rparr>"
  have v4: "view_as (tmap fneg g) (shape targets) = Inr ls"
    using tg by (simp add: view_as_def tmap_def numel_def gel ls_def)
  have v5: "size_at targets (Suc 0) = Inr T"
    using tg by (simp add: size_at_def)
  define mk where "mk = f32_of_bool (get_sequence_mask_from_length seq_len T)"
  have mk: "shape mk = [B, T]"
    "elems mk = map (\<lambda>b. Num (of_bool b)) (concat (map (\<lambda>l. map (\<lambda>j. int j < l) [0..<T]) (elems seq_len)))"
    using lens by (simp_all add: mk_def f32_of_bool_def tmap_def get_sequence_mask_from_length_def numel_def)
  have "length (concat (map (\<lambda>l. map (\<lambda>j. int j < l) [0..<T]) (elems seq_len))) = length (elems seq_len) * T"
    using length_concat_rows[of "map (\<lambda>l. map (\<lambda>j. int j < l) [0..<T]) (elems seq_len)" T] by simp
  then have lenmask: "length (concat (map (\<lambda>l. map (\<lambda>j. int j < l) [0..<T]) (elems seq_len))) = B * T"
    using lens by simp
  have wf: "wf_tensor ls" "wf_tensor mk" "shape ls = shape mk"
    using mk lenmask by (simp_all add: wf_tensor_def ls_def)
  have v6: "tbinop fmul ls mk = Inr \<lparr>shape = [B, T], elems = map2 fmul (elems ls) (elems mk)\<rparr>"
    using tbinop_same_shape[OF wf(3) wf(1) wf(2)] by (simp add: ls_def)
  have m: "masked_losses_f32 readouts targets seq_len (int C) = tbinop fmul ls mk"
    unfolding masked_losses_f32_def mk_def
    by (simp add: v1 ebind_def Let_def v2 v3 v4 v5)
  let ?rows = "map (\<lambda>b. map (\<lambda>j. fmul (position_loss_f32 readouts targets b j)
                                 (Num (of_bool (valid_position seq_len b j)))) [0..<T]) [0..<B]"
  have rl: "\<forall>ys \<in> set ?rows. length ys = T" by auto
  have "map2 fmul (elems ls) (elems mk) = concat ?rows"
  proof (rule nth_equalityI)
    show "length (map2 fmul (elems ls) (elems mk)) = length (concat ?rows)"
      using length_concat_rows[OF rl] by (simp add: ls_def mk(2) lenmask)
  next
    fix i assume "i < length (map2 fmul (elems ls) (elems mk))"
    then have i: "i < B * T" by (simp add: ls_def mk(2) lenmask)
    then have T: "0 < T" by (cases T) simp_all
    define b where "b = i div T"
    define j where "j = i mod T"
    have bj: "b < B" "j < T" "i = b * T + j"
      using i T by (simp_all add: b_def j_def less_mult_imp_div_less)
    have "concat ?rows ! (b * T + j) = ?rows ! b ! j"
      by (rule nth_concat_rows[OF rl]) (simp_all add: bj)
    then have r: "concat ?rows ! i = fmul (position_loss_f32 readouts targets b j)
                                 (Num (of_bool (valid_position seq_len b j)))"
      using bj by simp
    have mi: "concat (map (\<lambda>l. map (\<lambda>j. int j < l) [0..<T]) (elems seq_len)) ! i = valid_position seq_len b j"
      using mask_nth[of b "elems seq_len" j T] bj lens by (simp add: valid_position_def)
    have "nl i = position_loss_f32 readouts targets b j"
      using bj by (simp add: nl_def position_loss_f32_def ro(2) at2_def tg(2))
    then show "map2 fmul (elems ls) (elems mk) ! i = concat ?rows ! i"
      using i r mi lenmask by (simp add: ls_def mk(2))
  qed
  then show ?thesis
    using m v6 by simp
qed

lemma ln2_range: "0 \<le> ln (2::real)" "ln (2::real) \<le> max_f32" "- max_f32 \<le> - ln (2::real)" "- ln (2::real) \<le> max_f32"
proof -
  show a: "0 \<le> ln (2::real)" by simp
  have "ln (2::real) \<le> 2" using ln_bound[of "2::real"] by simp
  then show b: "ln (2::real) \<le> max_f32" by (simp add: max_f32_def)
  show "- max_f32 \<le> - ln (2::real)" using b by simp
  show "- ln (2::real) \<le> max_f32" using a max_f32_pos by linarith
qed

lemma rnd_simps:
  "rnd 0 = Num 0" "rnd 1 = Num 1" "rnd 2 = Num 2" "rnd 100 = Num 100"
  "rnd (ln 2) = Num (ln 2)" "rnd (- ln 2) = Num (- ln 2)"
  using ln2_range by (simp_all add: rnd_def max_f32_def)

lemma log_softmax_row_f32_equal_pair:
  "log_softmax_row_f32 [Num a, Num a] = [Num (- ln 2), Num (- ln 2)]"
  by (simp add: log_softmax_row_f32_def fmax_list_def fsub_def rnd_simps)

lemma log_softmax_row_f32_overflow:
  "log_softmax_row_f32 [Num 300000000000000000000000000000000000000,
                        Num (- 300000000000000000000000000000000000000)]
     = [Num 0, NegInf]"
  by (simp add: log_softmax_row_f32_def fmax_list_def fsub_def rnd_simps)
    (simp add: rnd_def max_f32_def)

lemma position_loss_f32_cong:
  assumes "wf_tensor readouts1" "shape readouts1 = [B, T, C]"
    and "wf_tensor readouts2" "shape readouts2 = [B, T, C]"
    and "b < B" "j < T"
    and "at2 targets1 b j = at2 targets2 b j"
    and "\<And>k. k < C \<Longrightarrow> at3 readouts1 b j k = at3 readouts2 b j k"
  shows "position_loss_f32 readouts1 targets1 b j = position_loss_f32 readouts2 targets2 b j"
proof -
  have len: "length (elems readouts1) = (B * T) * C" "length (elems readouts2) = (B * T) * C"
    using assms(1-4) by (simp_all add: wf_tensor_def)
  have "Suc b * T \<le> B * T" using assms(5) by (intro mult_le_mono1) simp
  then have i: "b * T + j < B * T" using assms(6) by simp
  have "row_at C (elems readouts1) (b * T + j) = row_at C (elems readouts2) (b * T + j)"
  proof (rule nth_equalityI)
    show "length (row_at C (elems readouts1) (b * T + j)) = length (row_at C (elems readouts2) (b * T + j))"
      by (simp add: length_row_at[OF len(1) i] length_row_at[OF len(2) i])
  next
    fix k assume "k < length (row_at C (elems readouts1) (b * T + j))"
    then have k: "k < C" by (simp add: length_row_at[OF len(1) i])
    show "row_at C (elems readouts1) (b * T + j) ! k = row_at C (elems readouts2) (b * T + j) ! k"
      using assms(8)[OF k] nth_row_at[OF len(1) i k] nth_row_at[OF len(2) i k]
      by (simp add: at3_def assms(2,4))
  qed
  then show ?thesis
    by (simp add: position_loss_f32_def assms(2,4,7))
qed

lemma fmul_num_zero: "is_number x \<Longrightarrow> fmul x (Num 0) = Num 0"
  by (cases x) (simp_all add: rnd_simps)

lemma padding_batch_values:
  defines "readouts \<equiv> \<lparr>shape = [1, 2, 2],
      elems = [Num 0, Num 0, Num 300000000000000000000000000000000000000,
               Num (- 300000000000000000000000000000000000000)]\<rparr>"
  shows "position_loss_f32 readouts \<lparr>shape = [1, 2], elems = [0, 1]\<rparr> 0 0 = Num (ln 2)"
    and "position_loss_f32 readouts \<lparr>shape = [1, 2], elems = [0, 1]\<rparr> 0 1 = PosInf"
    and "position_loss_f32 readouts \<lparr>shape = [1, 2], elems = [0, 0]\<rparr> 0 0 = Num (ln 2)"
    and "position_loss_f32 readouts \<lparr>shape = [1, 2], elems = [0, 0]\<rparr> 0 1 = Num 0"
  by (simp_all add: position_loss_f32_def readouts_def row_at_def at2_def
      log_softmax_row_f32_equal_pair log_softmax_row_f32_overflow)

lemma upt_1: "[0..<1] = [0]"
  by code_simp

lemma upt_2: "[0..<2] = [0, 1]"
  by code_simp

lemma valid_position_single:
  "valid_position \<lparr>shape = [1], elems = [1]\<rparr> 0 0 = True"
  "valid_position \<lparr>shape = [1], elems = [1]\<rparr> 0 1 = False"
  by (simp_all add: valid_position_def)

lemma masked_losses_f32_single:
  assumes "wf_tensor readouts" "shape readouts = [1, 2, 2]"
    and "wf_tensor targets" "shape targets = [1, 2]"
    and "\<forall>k \<in> set (elems targets). 0 \<le> k \<and> k < int 2"
  shows "masked_losses_f32 readouts targets \<lparr>shape = [1], elems = [1]\<rparr> 2 =
           Inr \<lparr>shape = [1, 2],
                elems = [fmul (position_loss_f32 readouts targets 0 0) (Num 1),
                         fmul (position_loss_f32 readouts targets 0 1) (Num 0)]\<rparr>"
proof -
  have s: "wf_tensor \<lparr>shape = [1], elems = [1::int]\<rparr>" "shape \<lparr>shape = [1], elems = [1::int]\<rparr> = [1]"
    by (simp_all add: wf_tensor_def)
  have "masked_losses_f32 readouts targets \<lparr>shape = [1], elems = [1]\<rparr> (int 2) =
           Inr \<lparr>shape = [1, 2],
                elems = concat (map (\<lambda>b. map (\<lambda>j. fmul (position_loss_f32 readouts targets b j)
                                   (Num (of_bool (valid_position \<lparr>shape = [1], elems = [1]\<rparr> b j))))
                                          [0..<2])
                                [0..<1])\<rparr>"
    by (rule masked_losses_f32_eq[OF assms(1,2) _ assms(3,4) s assms(5)]) simp
  then show ?thesis
    by (simp only: upt_1 upt_2 list.map concat.simps append.simps valid_position_single
        of_bool_eq of_nat_numeral)
qed

lemma finite_padding_values:
  "position_loss_f32 \<lparr>shape = [1, 2, 2], elems = [Num 0, Num 0, Num 0, Num 0]\<rparr>
       \<lparr>shape = [1, 2], elems = [0, 1]\<rparr> 0 1 = Num (ln 2)"
  "position_loss_f32 \<lparr>shape = [1, 2, 2], elems = [Num 0, Num 0, Num 5, Num 5]\<rparr>
       \<lparr>shape = [1, 2], elems = [0, 0]\<rparr> 0 1 = Num (ln 2)"
  by (simp_all add: position_loss_f32_def row_at_def at2_def log_softmax_row_f32_equal_pair)

text \<open>
  On floats the padded region can change the loss. One example of true length 1 in a
  batch of two positions and two classes, with the readouts \<open>3e38\<close> and \<open>-3e38\<close> at the
  padded position: the difference of the two readouts overflows, so the log-probability
  of class 1 there is minus infinity. With the padded target 1 the loss of the padded
  position is infinite, the mask multiplies it by zero, and \<open>compute_loss\<close> is NaN; with
  the padded target 0 it is \<open>ln 2\<close>. The two batches differ only in a padded target.
\<close>

theorem compute_loss_f32_padding_counterexample:
  "compute_loss_f32
       \<lparr>shape = [1, 2, 2],
        elems = [Num 0, Num 0, Num 300000000000000000000000000000000000000,
                 Num (- 300000000000000000000000000000000000000)]\<rparr>
       \<lparr>shape = [1, 2], elems = [0, 1]\<rparr> \<lparr>shape = [1], elems = [1]\<rparr> 2
     = Inr NaN \<and>
   compute_loss_f32
       \<lparr>shape = [1, 2, 2],
        elems = [Num 0, Num 0, Num 300000000000000000000000000000000000000,
                 Num (- 300000000000000000000000000000000000000)]\<rparr>
       \<lparr>shape = [1, 2], elems = [0, 0]\<rparr> \<lparr>shape = [1], elems = [1]\<rparr> 2
     = Inr (Num (ln 2))"
proof -
  let ?r = "\<lparr>shape = [1, 2, 2],
        elems = [Num 0, Num 0, Num 300000000000000000000000000000000000000,
                 Num (- 300000000000000000000000000000000000000)]\<rparr>"
  have a: "masked_losses_f32 ?r \<lparr>shape = [1, 2], elems = [0, 1]\<rparr> \<lparr>shape = [1], elems = [1]\<rparr> 2
      = Inr \<lparr>shape = [1, 2], elems = [fmul (Num (ln 2)) (Num 1), fmul PosInf (Num 0)]\<rparr>"
    using masked_losses_f32_single[of ?r "\<lparr>shape = [1, 2], elems = [0, 1]\<rparr>"]
    by (simp only: padding_batch_values) (simp add: wf_tensor_def)
  have b: "masked_losses_f32 ?r \<lparr>shape = [1, 2], elems = [0, 0]\<rparr> \<lparr>shape = [1], elems = [1]\<rparr> 2
      = Inr \<lparr>shape = [1, 2], elems = [fmul (Num (ln 2)) (Num 1), fmul (Num 0) (Num 0)]\<rparr>"
    using masked_losses_f32_single[of ?r "\<lparr>shape = [1, 2], elems = [0, 0]\<rparr>"]
    by (simp only: padding_batch_values) (simp add: wf_tensor_def)
  show ?thesis
    unfolding compute_loss_f32_masked_losses a b
    by (simp add: ebind_def f32_of_int_def tmap_def rnd_simps)
qed

text \<open>
  Claim C2. On floats, two batches of the same shapes and lengths, with targets in the
  class range, that agree on every target and every readout at the positions before each
  example's true length, and whose loss at every position at or beyond the true length
  is a finite number in both, have the same \<open>compute_loss\<close>: a padded region whose losses
  are finite does not change the loss.
\<close>

theorem compute_loss_f32_ignores_finite_padding:
  assumes "wf_tensor readouts1" "shape readouts1 = [B, T, C]"
    and "wf_tensor readouts2" "shape readouts2 = [B, T, C]"
    and "wf_tensor targets1" "shape targets1 = [B, T]"
    and "wf_tensor targets2" "shape targets2 = [B, T]"
    and "wf_tensor seq_len" "shape seq_len = [B]"
    and "0 < C"
    and "\<forall>k \<in> set (elems targets1). 0 \<le> k \<and> k < int C"
    and "\<forall>k \<in> set (elems targets2). 0 \<le> k \<and> k < int C"
    and "\<forall>b j. b < B \<and> j < T \<and> int j < elems seq_len ! b \<longrightarrow>
           at2 targets1 b j = at2 targets2 b j \<and>
           (\<forall>k < C. at3 readouts1 b j k = at3 readouts2 b j k)"
    and "\<forall>b j. b < B \<and> j < T \<and> \<not> int j < elems seq_len ! b \<longrightarrow>
           is_number (position_loss_f32 readouts1 targets1 b j) \<and>
           is_number (position_loss_f32 readouts2 targets2 b j)"
  shows "compute_loss_f32 readouts1 targets1 seq_len (int C)
           = compute_loss_f32 readouts2 targets2 seq_len (int C)"
proof -
  have "map (\<lambda>b. map (\<lambda>j. fmul (position_loss_f32 readouts1 targets1 b j)
                             (Num (of_bool (valid_position seq_len b j)))) [0..<T]) [0..<B]
      = map (\<lambda>b. map (\<lambda>j. fmul (position_loss_f32 readouts2 targets2 b j)
                             (Num (of_bool (valid_position seq_len b j)))) [0..<T]) [0..<B]"
  proof (rule map_cong[OF refl], rule map_cong[OF refl])
    fix b j assume "b \<in> set [0..<B]" "j \<in> set [0..<T]"
    then have bj: "b < B" "j < T" by simp_all
    show "fmul (position_loss_f32 readouts1 targets1 b j) (Num (of_bool (valid_position seq_len b j)))
        = fmul (position_loss_f32 readouts2 targets2 b j) (Num (of_bool (valid_position seq_len b j)))"
    proof (cases "valid_position seq_len b j")
      case True
      then have "at2 targets1 b j = at2 targets2 b j"
        "\<And>k. k < C \<Longrightarrow> at3 readouts1 b j k = at3 readouts2 b j k"
        using assms(14) bj by (auto simp: valid_position_def)
      then have "position_loss_f32 readouts1 targets1 b j = position_loss_f32 readouts2 targets2 b j"
        by (rule position_loss_f32_cong[OF assms(1-4) bj])
      then show ?thesis by simp
    next
      case False
      then have "is_number (position_loss_f32 readouts1 targets1 b j)"
        "is_number (position_loss_f32 readouts2 targets2 b j)"
        using assms(15) bj by (auto simp: valid_position_def)
      then show ?thesis using False by (simp add: fmul_num_zero)
    qed
  qed
  then have "masked_losses_f32 readouts1 targets1 seq_len (int C)
      = masked_losses_f32 readouts2 targets2 seq_len (int C)"
    unfolding masked_losses_f32_eq[OF assms(1,2,11,5,6,9,10,12)]
      masked_losses_f32_eq[OF assms(3,4,11,7,8,9,10,13)]
    by (simp only:)
  then show ?thesis
    by (simp only: compute_loss_f32_masked_losses)
qed

theorem compute_loss_f32_ignores_finite_padding_witness:
  "compute_loss_f32 \<lparr>shape = [1, 2, 2], elems = [Num 0, Num 0, Num 0, Num 0]\<rparr>
       \<lparr>shape = [1, 2], elems = [0, 1]\<rparr> \<lparr>shape = [1], elems = [1]\<rparr> 2
     = compute_loss_f32 \<lparr>shape = [1, 2, 2], elems = [Num 0, Num 0, Num 5, Num 5]\<rparr>
       \<lparr>shape = [1, 2], elems = [0, 0]\<rparr> \<lparr>shape = [1], elems = [1]\<rparr> 2"
proof -
  let ?r1 = "\<lparr>shape = [1, 2, 2], elems = [Num 0, Num 0, Num 0, Num 0]\<rparr>"
  let ?r2 = "\<lparr>shape = [1, 2, 2], elems = [Num 0, Num 0, Num 5, Num 5]\<rparr>"
  let ?t1 = "\<lparr>shape = [1, 2], elems = [0, 1]\<rparr> :: int tensor"
  let ?t2 = "\<lparr>shape = [1, 2], elems = [0, 0]\<rparr> :: int tensor"
  let ?s = "\<lparr>shape = [1], elems = [1]\<rparr> :: int tensor"
  have agree: "\<forall>b j. b < 1 \<and> j < 2 \<and> int j < elems ?s ! b \<longrightarrow>
           at2 ?t1 b j = at2 ?t2 b j \<and> (\<forall>k < 2. at3 ?r1 b j k = at3 ?r2 b j k)"
    by (simp add: at2_def at3_def less_Suc_eq numeral_2_eq_2)
  have fin: "\<forall>b j. b < 1 \<and> j < 2 \<and> \<not> int j < elems ?s ! b \<longrightarrow>
           is_number (position_loss_f32 ?r1 ?t1 b j) \<and> is_number (position_loss_f32 ?r2 ?t2 b j)"
  proof (intro allI impI)
    fix b j :: nat assume "b < 1 \<and> j < 2 \<and> \<not> int j < elems ?s ! b"
    then have "b = 0" "j = 1" by auto
    then show "is_number (position_loss_f32 ?r1 ?t1 b j) \<and> is_number (position_loss_f32 ?r2 ?t2 b j)"
      by (simp only: finite_padding_values is_number.simps simp_thms)
  qed
  have "compute_loss_f32 ?r1 ?t1 ?s (int 2) = compute_loss_f32 ?r2 ?t2 ?s (int 2)"
    by (rule compute_loss_f32_ignores_finite_padding[where B = 1 and T = 2, OF _ _ _ _ _ _ _ _ _ _ _ _ _ agree fin])
      (simp_all add: wf_tensor_def)
  then show ?thesis by simp
qed

section \<open>Perplexity in the float32 range\<close>



































end
